theory Spec2Isabelle
  imports Complex_Main
begin

section \<open>Ground-truth synthesis of the CBN Total-Text dataset (dataset/cbn/cbn_tt.py)\<close>

text \<open>
  The development embeds the pure parts of \<^verbatim>\<open>dataset/cbn/cbn_tt.py\<close>.
  Conventions:
  \<^item> Python exceptions are values of the type \<open>error\<close>; a function that can raise returns
    \<open>error + 'a\<close> with \<open>Inl\<close> for the exception.
  \<^item> The binary64 arithmetic of scale normalisation is a parameter (a record of the float
    operations), so that what is proved there holds of the machine's arithmetic. In the
    offset distance of \<^verbatim>\<open>shrink\<close> floats are idealised as \<open>real\<close>. Where a float only
    decides a comparison of two integer quantities the comparison is written on the
    integers.
  \<^item> A numpy array of two dimensions is a list of rows; its shape is carried by the
    lengths of the lists.
  \<^item> The libraries the file calls (Polygon, pyclipper, OpenCV) are not part of the
    repository: what they compute is a parameter of the embedded function, or, for
    slicing and constant borders, their documented effect on the shape.
  \<^item> Randomness is an explicit argument: the draw of \<^verbatim>\<open>random.random()\<close> and the
    raw numbers behind each \<^verbatim>\<open>random.randint\<close>.
\<close>

datatype error =
    IndexError
  | ValueError
  | ZeroDivisionError
  | UnboundLocalError
  | ClipperException
  | CvError

subsection \<open>Scale normalisation: \<^verbatim>\<open>scale_aligned\<close>, \<^verbatim>\<open>scale_aligned_short\<close>\<close>

text \<open>
  The float operations the two functions use, on a type \<open>'f\<close> of floats: the conversion
  of an integer operand, product, sum, quotient, the constants 0.5 and 1.0, and
  \<^verbatim>\<open>int(x)\<close>, which truncates towards zero and raises on a value that is not finite.
\<close>

record 'f float_ops =
  of_int_f :: "int \<Rightarrow> 'f"
  mul_f :: "'f \<Rightarrow> 'f \<Rightarrow> 'f"
  add_f :: "'f \<Rightarrow> 'f \<Rightarrow> 'f"
  div_f :: "'f \<Rightarrow> 'f \<Rightarrow> 'f"
  half_f :: "'f"
  one_f :: "'f"
  int_f :: "'f \<Rightarrow> error + int"

text \<open>\<^verbatim>\<open>int(h * scale + 0.5)\<close> for an integer \<open>h\<close> and a float \<open>scale\<close>.\<close>

definition scaled_dim :: "'f float_ops \<Rightarrow> int \<Rightarrow> 'f \<Rightarrow> error + int" where
  "scaled_dim ops h scale = int_f ops (add_f ops (mul_f ops (of_int_f ops h) scale) (half_f ops))"

text \<open>
  \<^verbatim>\<open>if h % 32 != 0: h = h + (32 - h % 32)\<close>. Python's \<^verbatim>\<open>%\<close> with a positive
  divisor has the sign of the divisor, as \<open>mod\<close> on \<open>int\<close> has.
\<close>

definition align32 :: "int \<Rightarrow> int" where
  "align32 h = (if h mod 32 \<noteq> 0 then h + (32 - h mod 32) else h)"

text \<open>
  \<^verbatim>\<open>cv2.resize(img, dsize=(w, h))\<close>: the result has \<open>h\<close> rows and \<open>w\<close> columns; OpenCV
  refuses a size with a component that is not positive. An image is represented by its
  shape \<open>(h, w)\<close>, since only the shape of the result is decided by this file.
\<close>

definition cv2_resize :: "int \<times> int \<Rightarrow> int \<times> int \<Rightarrow> error + int \<times> int" where
  "cv2_resize shape dsize =
     (case dsize of (w, h) \<Rightarrow> if w \<le> 0 \<or> h \<le> 0 then Inl CvError else Inr (h, w))"

definition scale_aligned :: "'f float_ops \<Rightarrow> int \<times> int \<Rightarrow> 'f \<Rightarrow> error + int \<times> int" where
  "scale_aligned ops shape scale =
     (case shape of (h0, w0) \<Rightarrow>
        case scaled_dim ops h0 scale of
          Inl e \<Rightarrow> Inl e
        | Inr h \<Rightarrow>
            (case scaled_dim ops w0 scale of
               Inl e \<Rightarrow> Inl e
             | Inr w \<Rightarrow>
                 let h = align32 h;
                     w = align32 w
                 in cv2_resize shape (w, h)))"

text \<open>
  \<^verbatim>\<open>scale = short_size * 1.0 / min(h, w)\<close>, for the integer \<^verbatim>\<open>short_size\<close> of the
  configuration: a float divided by a Python integer that is 0 raises ZeroDivisionError.
\<close>

definition scale_aligned_short :: "'f float_ops \<Rightarrow> int \<times> int \<Rightarrow> int \<Rightarrow> error + int \<times> int" where
  "scale_aligned_short ops shape short_size =
     (case shape of (h0, w0) \<Rightarrow>
        if min h0 w0 = 0 then Inl ZeroDivisionError
        else
          let scale = div_f ops (mul_f ops (of_int_f ops short_size) (one_f ops))
                        (of_int_f ops (min h0 w0))
          in case scaled_dim ops h0 scale of
               Inl e \<Rightarrow> Inl e
             | Inr h \<Rightarrow>
                 (case scaled_dim ops w0 scale of
                    Inl e \<Rightarrow> Inl e
                  | Inr w \<Rightarrow>
                      let h = align32 h;
                          w = align32 w
                      in cv2_resize shape (w, h)))"

text \<open>Python's \<^verbatim>\<open>int(x)\<close> on the reals: truncation towards zero.\<close>

definition py_int :: "real \<Rightarrow> int" where
  "py_int x = (if 0 \<le> x then \<lfloor>x\<rfloor> else \<lceil>x\<rceil>)"

text \<open>
  The operations of exact arithmetic on the reals, an instance of the float operations
  for examples whose values binary64 computes without a rounding that changes the integer.
\<close>

definition exact_ops :: "real float_ops" where
  "exact_ops = \<lparr> of_int_f = real_of_int, mul_f = (*), add_f = (+), div_f = (/),
                 half_f = 1 / 2, one_f = 1, int_f = (\<lambda>x. Inr (py_int x)) \<rparr>"

subsection \<open>Post-crop pruning: \<^verbatim>\<open>update_word_mask\<close>\<close>

text \<open>
  The instance map is a \<^verbatim>\<open>uint8\<close> raster (\<^verbatim>\<open>gt_instance\<close>), a list of rows of
  naturals. \<^verbatim>\<open>np.unique\<close> returns the distinct values in increasing order.
\<close>

definition np_unique :: "nat list list \<Rightarrow> nat list" where
  "np_unique instance = sort (remdups (concat instance))"

text \<open>\<^verbatim>\<open>np.sum(instance == label)\<close>: the number of pixels that carry the label.\<close>

definition count_label :: "nat list list \<Rightarrow> nat \<Rightarrow> nat" where
  "count_label instance label = length (filter (\<lambda>v. v = label) (concat instance))"

text \<open>
  \<^verbatim>\<open>float(np.sum(ind)) / np.sum(ind_before_crop) > 0.9\<close> for the pixel counts \<open>n\<close> (after
  the crop) and \<open>m\<close> (before it). Both counts are far below \<open>2 ^ 50\<close>, where the double
  nearest to \<open>n / m\<close> exceeds the double nearest to \<open>0.9\<close> exactly when \<open>n / m > 9 / 10\<close>,
  so the test is written on the integers. With \<open>m = 0\<close> and \<open>n > 0\<close> numpy returns
  \<^verbatim>\<open>inf\<close> (with a warning), which exceeds 0.9, and with \<open>n = m = 0\<close> it returns
  \<^verbatim>\<open>nan\<close>, which does not: \<open>9 * m < 10 * n\<close> gives the same answers.
\<close>

definition ratio_above_09 :: "nat \<Rightarrow> nat \<Rightarrow> bool" where
  "ratio_above_09 n m = (9 * m < 10 * n)"

text \<open>
  \<^verbatim>\<open>word_mask[label] = 0\<close> on the \<^verbatim>\<open>int32\<close> vector \<^verbatim>\<open>word_mask\<close>: numpy raises
  IndexError when the label is not below its length.
\<close>

definition clear_slot :: "int list \<Rightarrow> nat \<Rightarrow> error + int list" where
  "clear_slot word_mask label =
     (if label < length word_mask then Inr (word_mask[label := 0]) else Inl IndexError)"

fun update_word_mask_loop ::
  "nat list \<Rightarrow> nat list list \<Rightarrow> nat list list \<Rightarrow> int list \<Rightarrow> error + int list" where
  "update_word_mask_loop [] instance instance_before_crop word_mask = Inr word_mask"
| "update_word_mask_loop (label # labels) instance instance_before_crop word_mask =
     (if label = 0 then
        update_word_mask_loop labels instance instance_before_crop word_mask
      else if count_label instance label = 0 then
        (case clear_slot word_mask label of
           Inl e \<Rightarrow> Inl e
         | Inr word_mask' \<Rightarrow>
             update_word_mask_loop labels instance instance_before_crop word_mask')
      else if ratio_above_09 (count_label instance label)
                (count_label instance_before_crop label) then
        update_word_mask_loop labels instance instance_before_crop word_mask
      else
        (case clear_slot word_mask label of
           Inl e \<Rightarrow> Inl e
         | Inr word_mask' \<Rightarrow>
             update_word_mask_loop labels instance instance_before_crop word_mask'))"

definition update_word_mask ::
  "nat list list \<Rightarrow> nat list list \<Rightarrow> int list \<Rightarrow> error + int list" where
  "update_word_mask instance instance_before_crop word_mask =
     update_word_mask_loop (np_unique instance) instance instance_before_crop word_mask"


text \<open>
  The labels whose slot the loop clears: a nonzero label whose pixel count after the crop
  is zero, or is not above 90% of its count before the crop.
\<close>

definition cleared :: "nat list list \<Rightarrow> nat list list \<Rightarrow> nat \<Rightarrow> bool" where
  "cleared instance instance_before_crop label =
     (label \<noteq> 0 \<and>
      (count_label instance label = 0 \<or>
       \<not> ratio_above_09 (count_label instance label)
            (count_label instance_before_crop label)))"

subsection \<open>Vocabulary and Word Label Table: \<^verbatim>\<open>get_vocabulary\<close>, \<^verbatim>\<open>prepare_train_data\<close>\<close>

text \<open>
  \<^verbatim>\<open>get_vocabulary('LOWERCASE')\<close>, the call of the dataset's constructor: the
  vocabulary is the list of the one-character strings of \<^verbatim>\<open>string.digits +
  string.ascii_lowercase\<close> followed by \<^verbatim>\<open>'EOS'\<close>, \<^verbatim>\<open>'PAD'\<close> and \<^verbatim>\<open>'UNK'\<close>;
  \<^verbatim>\<open>char2id = dict(zip(voc, range(len(voc))))\<close>.
\<close>

definition digits :: string where
  "digits = ''0123456789''"

definition ascii_lowercase :: string where
  "ascii_lowercase = ''abcdefghijklmnopqrstuvwxyz''"

definition voc :: "string list" where
  "voc = map (\<lambda>c. [c]) (digits @ ascii_lowercase) @ [''EOS'', ''PAD'', ''UNK'']"

definition char2id :: "string \<rightharpoonup> int" where
  "char2id = map_of (zip voc (map int [0..<length voc]))"

text \<open>The three lookups \<^verbatim>\<open>self.char2id['EOS']\<close>, \<^verbatim>\<open>['PAD']\<close>, \<^verbatim>\<open>['UNK']\<close>; each key
  is in the dictionary (lemma \<open>char2id_special\<close>).\<close>

definition EOS :: int where
  "EOS = the (char2id ''EOS'')"

definition PAD :: int where
  "PAD = the (char2id ''PAD'')"

definition UNK :: int where
  "UNK = the (char2id ''UNK'')"

definition max_word_num :: nat where
  "max_word_num = 200"

definition max_word_len :: nat where
  "max_word_len = 32"

text \<open>
  \<^verbatim>\<open>word.lower()\<close> on the characters of an 8-bit string: the letters A to Z move to a to
  z. Python also lowers accented capitals, to characters that are outside the vocabulary
  as the capitals are; they are left as they are here.
\<close>

definition lower_char :: "char \<Rightarrow> char" where
  "lower_char c =
     (let n = (of_char c :: nat) in if 65 \<le> n \<and> n \<le> 90 then char_of (n + 32) else c)"

definition lower :: "string \<Rightarrow> string" where
  "lower word = map lower_char word"

text \<open>\<^verbatim>\<open>self.char2id[char] if char in self.char2id else self.char2id['UNK']\<close>\<close>

definition encode_char :: "char \<Rightarrow> int" where
  "encode_char c = (case char2id [c] of Some v \<Rightarrow> v | None \<Rightarrow> UNK)"

text \<open>
  The loop \<^verbatim>\<open>for j, char in enumerate(word)\<close> with its \<^verbatim>\<open>break\<close> at
  \<^verbatim>\<open>j > self.max_word_len - 1\<close>, writing \<^verbatim>\<open>gt_word[j]\<close>.
\<close>

fun encode_chars :: "nat \<Rightarrow> string \<Rightarrow> int list \<Rightarrow> int list" where
  "encode_chars j [] gt_word = gt_word"
| "encode_chars j (c # cs) gt_word =
     (if j > max_word_len - 1 then gt_word
      else encode_chars (Suc j) cs (gt_word[j := encode_char c]))"

text \<open>The body of the outer loop for one word that is not skipped; \<^verbatim>\<open>gt_word[-1]\<close> is
  the last position of the vector of length \<^verbatim>\<open>max_word_len\<close>.\<close>

definition encode_word :: "string \<Rightarrow> int list" where
  "encode_word word0 =
     (let word = lower word0;
          gt_word = replicate max_word_len PAD;
          gt_word = encode_chars 0 word gt_word
      in if length word > max_word_len - 1 then gt_word[length gt_word - 1 := EOS]
         else gt_word[length word := EOS])"

text \<open>
  The loop \<^verbatim>\<open>for i, word in enumerate(words)\<close>. The writes \<^verbatim>\<open>gt_words[i + 1] = gt_word\<close>
  and \<^verbatim>\<open>word_mask[i + 1] = 1\<close> raise IndexError beyond the table.
\<close>

fun word_table_loop ::
  "nat \<Rightarrow> string list \<Rightarrow> int list list \<times> int list \<Rightarrow> error + int list list \<times> int list" where
  "word_table_loop i [] (gt_words, word_mask) = Inr (gt_words, word_mask)"
| "word_table_loop i (word # words) (gt_words, word_mask) =
     (if word = ''###'' \<or> word = ''???'' then
        word_table_loop (Suc i) words (gt_words, word_mask)
      else if i + 1 < length gt_words \<and> i + 1 < length word_mask then
        word_table_loop (Suc i) words
          (gt_words[i + 1 := encode_word word], word_mask[i + 1 := 1])
      else Inl IndexError)"

text \<open>
  The head of \<^verbatim>\<open>prepare_train_data\<close>: the annotation lists are cut to
  \<^verbatim>\<open>max_word_num\<close> (\<^verbatim>\<open>get_ann\<close> returns as many words as boxes), the table is filled
  with PAD and the mask with 0, and the loop runs.
\<close>

definition word_label_table :: "string list \<Rightarrow> error + int list list \<times> int list" where
  "word_label_table words0 =
     (let words = (if length words0 > max_word_num then take max_word_num words0 else words0);
          gt_words = replicate (max_word_num + 1) (replicate max_word_len PAD);
          word_mask = replicate (max_word_num + 1) 0
      in word_table_loop 0 words (gt_words, word_mask))"

text \<open>
  The content of a slot in the specification's words: the ids of the lowercased
  characters in order, the end-of-sequence marker, then PAD up to \<^verbatim>\<open>max_word_len\<close>; a
  word of more than \<^verbatim>\<open>max_word_len - 1\<close> characters keeps its first
  \<^verbatim>\<open>max_word_len - 1\<close> ids and ends with the marker.
\<close>

definition slot_of_word :: "string \<Rightarrow> int list" where
  "slot_of_word word =
     (let ids = map encode_char (lower word) in
      if length word \<le> max_word_len - 1
      then ids @ [EOS] @ replicate (max_word_len - 1 - length word) PAD
      else take (max_word_len - 1) ids @ [EOS])"

text \<open>The words whose encoding the loop skips: the sentinels \<^verbatim>\<open>'###'\<close> and \<^verbatim>\<open>'???'\<close>.\<close>

definition skipped :: "string \<Rightarrow> bool" where
  "skipped word = (word = ''###'' \<or> word = ''???'')"

subsection \<open>Polygon geometry: \<^verbatim>\<open>dist\<close>, \<^verbatim>\<open>perimeter\<close>, \<^verbatim>\<open>shrink\<close>\<close>

text \<open>
  A polygon is the array of its points, which \<^verbatim>\<open>prepare_train_data\<close> has cast to
  \<^verbatim>\<open>int32\<close> pixel coordinates: a coordinate is an integer of the \<^verbatim>\<open>int32\<close> range.
  The difference \<^verbatim>\<open>a - b\<close> of two points is taken in \<^verbatim>\<open>int32\<close> and wraps around;
  \<^verbatim>\<open>np.linalg.norm(a - b, ord=2, axis=0)\<close> converts it to floats and returns its
  Euclidean length.
\<close>

type_synonym point = "int \<times> int"

type_synonym polygon = "point list"

definition wrap32 :: "int \<Rightarrow> int" where
  "wrap32 x = (x + 2 ^ 31) mod 2 ^ 32 - 2 ^ 31"

definition dist_l2 :: "point \<Rightarrow> point \<Rightarrow> real" where
  "dist_l2 a b =
     sqrt (real_of_int ((wrap32 (fst a - fst b))\<^sup>2 + (wrap32 (snd a - snd b))\<^sup>2))"

text \<open>\<^verbatim>\<open>for i in range(bbox.shape[0]): peri += dist(bbox[i], bbox[(i + 1) % bbox.shape[0]])\<close>\<close>

definition perimeter :: "polygon \<Rightarrow> real" where
  "perimeter bbox =
     (\<Sum>i\<leftarrow>[0..<length bbox]. dist_l2 (bbox ! i) (bbox ! ((i + 1) mod length bbox)))"

text \<open>
  The offsetting library (pyclipper) is a parameter: given the path, the join type, the
  end type and the signed distance, \<^verbatim>\<open>AddPath\<close> followed by \<^verbatim>\<open>Execute\<close> returns the
  list of result rings or raises. \<^verbatim>\<open>plg.Polygon(bbox).area()\<close> is a parameter too: it
  returns the area or raises (on a polygon of fewer than 3 points, for one).
\<close>

datatype join_type = JT_SQUARE | JT_ROUND | JT_MITER

datatype end_type = ET_CLOSEDPOLYGON | ET_CLOSEDLINE | ET_OPENBUTT | ET_OPENSQUARE | ET_OPENROUND

type_synonym offsetter = "polygon \<Rightarrow> join_type \<Rightarrow> end_type \<Rightarrow> int \<Rightarrow> error + polygon list"

text \<open>\<^verbatim>\<open>min(int(area * (1 - rate) / (peri + 0.001) + 0.5), max_shr)\<close>, where \<open>rate\<close> is
  already the square of the argument of \<^verbatim>\<open>shrink\<close>; the floats are idealised as reals.\<close>

definition shrink_offset :: "real \<Rightarrow> real \<Rightarrow> real \<Rightarrow> int \<Rightarrow> int" where
  "shrink_offset area peri rate max_shr =
     min (py_int (area * (1 - rate) / (peri + 0.001) + 0.5)) max_shr"

text \<open>
  What one round of the loop makes of the result of the \<^verbatim>\<open>try\<close> block. The flag
  \<open>bound\<close> says whether the local variable \<^verbatim>\<open>shrinked_bbox\<close> holds a value: it is
  assigned by \<^verbatim>\<open>shrinked_bbox = pco.Execute(-offset)\<close> only, and the handler
  \<^verbatim>\<open>except Exception: print(type(shrinked_bbox), shrinked_bbox)\<close> reads it, which
  raises UnboundLocalError, out of \<^verbatim>\<open>shrink\<close>, when it holds none. The result is the
  new flag and the polygon appended to \<^verbatim>\<open>shrinked_bboxes\<close>.
\<close>

definition shrink_select ::
  "bool \<Rightarrow> polygon \<Rightarrow> error + polygon list \<Rightarrow> error + bool \<times> polygon" where
  "shrink_select bound bbox executed =
     (case executed of
        Inl e \<Rightarrow> if bound then Inr (bound, bbox) else Inl UnboundLocalError
      | Inr shrinked_bbox \<Rightarrow>
          if length shrinked_bbox = 0 then Inr (True, bbox)
          else if length (shrinked_bbox ! 0) \<le> 2 then Inr (True, bbox)
          else Inr (True, shrinked_bbox ! 0))"

text \<open>
  One round of the loop. The area and the perimeter are computed before the
  \<^verbatim>\<open>try\<close> block: an exception of the area leaves \<^verbatim>\<open>shrink\<close>.
\<close>

definition shrink_one ::
  "(polygon \<Rightarrow> error + real) \<Rightarrow> offsetter \<Rightarrow> real \<Rightarrow> int \<Rightarrow> bool \<Rightarrow> polygon
     \<Rightarrow> error + bool \<times> polygon" where
  "shrink_one area pco rate max_shr bound bbox =
     (case area bbox of
        Inl e \<Rightarrow> Inl e
      | Inr a \<Rightarrow>
          let peri = perimeter bbox;
              offset = shrink_offset a peri rate max_shr
          in shrink_select bound bbox (pco bbox JT_ROUND ET_CLOSEDPOLYGON (- offset)))"

fun shrink_loop ::
  "(polygon \<Rightarrow> error + real) \<Rightarrow> offsetter \<Rightarrow> real \<Rightarrow> int \<Rightarrow> bool \<Rightarrow> polygon list
     \<Rightarrow> polygon list \<Rightarrow> error + polygon list" where
  "shrink_loop area pco rate max_shr bound shrinked_bboxes [] = Inr shrinked_bboxes"
| "shrink_loop area pco rate max_shr bound shrinked_bboxes (bbox # bboxes) =
     (case shrink_one area pco rate max_shr bound bbox of
        Inl e \<Rightarrow> Inl e
      | Inr (bound', b) \<Rightarrow>
          shrink_loop area pco rate max_shr bound' (shrinked_bboxes @ [b]) bboxes)"

definition shrink ::
  "(polygon \<Rightarrow> error + real) \<Rightarrow> offsetter \<Rightarrow> polygon list \<Rightarrow> real \<Rightarrow> int
     \<Rightarrow> error + polygon list" where
  "shrink area pco bboxes rate max_shr =
     shrink_loop area pco (rate * rate) max_shr False [] bboxes"

text \<open>The call \<^verbatim>\<open>shrink(bboxes, rate)\<close> of \<^verbatim>\<open>prepare_train_data\<close>, with the default
  \<^verbatim>\<open>max_shr=20\<close>.\<close>

definition shrink_default ::
  "(polygon \<Rightarrow> error + real) \<Rightarrow> offsetter \<Rightarrow> polygon list \<Rightarrow> real \<Rightarrow> error + polygon list" where
  "shrink_default area pco bboxes rate = shrink area pco bboxes rate 20"



subsection \<open>Distance maps: the merge of \<^verbatim>\<open>prepare_train_data\<close>\<close>

text \<open>
  A raster of the canvas is a list of \<open>h\<close> rows of \<open>w\<close> pixels.
\<close>

definition has_shape :: "nat \<Rightarrow> nat \<Rightarrow> 'a list list \<Rightarrow> bool" where
  "has_shape h w img = (length img = h \<and> (\<forall>row\<in>set img. length row = w))"

text \<open>
  \<^verbatim>\<open>gt_distmap[tempdist_img>0] = tempdist_img[tempdist_img>0]\<close>: assignment through a
  boolean mask. Both arrays have the shape of the image.
\<close>

definition overwrite_positive :: "real list list \<Rightarrow> real list list \<Rightarrow> real list list" where
  "overwrite_positive gt_distmap tempdist_img =
     map2 (map2 (\<lambda>g t. if t > 0 then t else g)) gt_distmap tempdist_img"

text \<open>
  The loop over the polygons, for what it does to \<^verbatim>\<open>gt_distmap\<close>. The parameter
  \<open>dist_transform\<close> stands for drawing the polygon filled on an empty canvas
  (\<^verbatim>\<open>cv2.drawContours\<close>) and taking \<^verbatim>\<open>cv2.distanceTransform(tmp, cv2.DIST_L2, 3)\<close>.
\<close>

fun distmap_loop ::
  "(polygon \<Rightarrow> real list list) \<Rightarrow> polygon list \<Rightarrow> real list list \<Rightarrow> real list list" where
  "distmap_loop dist_transform [] gt_distmap = gt_distmap"
| "distmap_loop dist_transform (bbox # bboxes) gt_distmap =
     distmap_loop dist_transform bboxes (overwrite_positive gt_distmap (dist_transform bbox))"

text \<open>The raw-polygon layer: \<^verbatim>\<open>gt_distmap = np.zeros(img.shape[0:2])\<close>, then the loop
  over \<^verbatim>\<open>bboxes\<close>.\<close>

definition raw_distmap ::
  "(polygon \<Rightarrow> real list list) \<Rightarrow> nat \<Rightarrow> nat \<Rightarrow> polygon list \<Rightarrow> real list list" where
  "raw_distmap dist_transform h w bboxes =
     distmap_loop dist_transform bboxes (replicate h (replicate w 0))"

text \<open>
  The kernel layer: a fresh \<^verbatim>\<open>gt_distmap\<close>, then \<^verbatim>\<open>for i in range(len(bboxes))\<close>
  over \<^verbatim>\<open>kernel_bboxes[i]\<close>, which raises IndexError if \<^verbatim>\<open>kernel_bboxes\<close> is the
  shorter list.
\<close>

definition kernel_distmap ::
  "(polygon \<Rightarrow> real list list) \<Rightarrow> nat \<Rightarrow> nat \<Rightarrow> polygon list \<Rightarrow> polygon list
     \<Rightarrow> error + real list list" where
  "kernel_distmap dist_transform h w bboxes kernel_bboxes =
     (if length bboxes \<le> length kernel_bboxes
      then Inr (distmap_loop dist_transform (take (length bboxes) kernel_bboxes)
                  (replicate h (replicate w 0)))
      else Inl IndexError)"

text \<open>
  \<^verbatim>\<open>gt_distmaps\<close>: the raw layer is appended only when there is a polygon, the kernel
  layer always.
\<close>

definition gt_distmaps ::
  "(polygon \<Rightarrow> real list list) \<Rightarrow> nat \<Rightarrow> nat \<Rightarrow> polygon list \<Rightarrow> polygon list
     \<Rightarrow> error + real list list list" where
  "gt_distmaps dist_transform h w bboxes kernel_bboxes =
     (case kernel_distmap dist_transform h w bboxes kernel_bboxes of
        Inl e \<Rightarrow> Inl e
      | Inr kernel_layer \<Rightarrow>
          Inr ((if length bboxes > 0 then [raw_distmap dist_transform h w bboxes] else [])
               @ [kernel_layer]))"

text \<open>
  The merge in the specification's words: the value of a pixel is the last nonzero value
  among the fields at that pixel, and the initial value of the buffer when there is none.
\<close>

definition last_nonzero :: "real \<Rightarrow> real list \<Rightarrow> real" where
  "last_nonzero init vs = (case filter (\<lambda>v. v \<noteq> 0) vs of [] \<Rightarrow> init | w # ws \<Rightarrow> last (w # ws))"

text \<open>A distance field: a raster of the canvas whose values are not negative.\<close>

definition distance_field :: "nat \<Rightarrow> nat \<Rightarrow> real list list \<Rightarrow> bool" where
  "distance_field h w img = (has_shape h w img \<and> (\<forall>row\<in>set img. \<forall>v\<in>set row. 0 \<le> v))"

subsection \<open>Random crop with padding: \<^verbatim>\<open>random_crop_padding\<close>\<close>

text \<open>
  The list \<^verbatim>\<open>imgs\<close> holds the image, an array of three dimensions (rows of pixels, a
  pixel being the list of its channels), and rasters of two dimensions (the instance
  map at index 1, the training mask at index 2, then the kernel and distance maps).
\<close>

datatype 'a raster = Gray "'a list list" | Color "'a list list list"

text \<open>\<^verbatim>\<open>imgs[idx].shape[0:2]\<close> and \<^verbatim>\<open>imgs[idx].shape[-1]\<close>.\<close>

definition width_of :: "'p list list \<Rightarrow> nat" where
  "width_of rows = (case rows of [] \<Rightarrow> 0 | row # _ \<Rightarrow> length row)"

fun shape2 :: "'a raster \<Rightarrow> nat \<times> nat" where
  "shape2 (Gray rows) = (length rows, width_of rows)"
| "shape2 (Color rows) = (length rows, width_of rows)"

fun channels :: "'a raster \<Rightarrow> nat" where
  "channels (Gray rows) = 1"
| "channels (Color rows) = (case concat rows of [] \<Rightarrow> 0 | pixel # _ \<Rightarrow> length pixel)"

text \<open>\<^verbatim>\<open>np.max\<close> raises ValueError on an array without elements.\<close>

definition max_of :: "'a::linorder list \<Rightarrow> error + 'a" where
  "max_of vs = (case vs of [] \<Rightarrow> Inl ValueError | v # ws \<Rightarrow> Inr (fold max ws v))"

fun np_max :: "'a::linorder raster \<Rightarrow> error + 'a" where
  "np_max (Gray rows) = max_of (concat rows)"
| "np_max (Color rows) = max_of (concat (concat rows))"

text \<open>\<^verbatim>\<open>np.where(imgs[1] > 0)\<close> on a raster of two dimensions: the coordinates (row,
  column) of the pixels above 0.\<close>

definition positive_coords :: "'a::{zero,linorder} list list \<Rightarrow> (nat \<times> nat) list" where
  "positive_coords rows =
     concat (map (\<lambda>r. map (\<lambda>c. (r, c)) (filter (\<lambda>c. rows ! r ! c > 0) [0..<length (rows ! r)]))
                 [0..<length rows])"

text \<open>\<^verbatim>\<open>random.randint(a, b)\<close> for \<open>a \<le> b\<close>, from a raw random natural \<open>r\<close>: a value
  of the closed range, every value of the range for some \<open>r\<close>.\<close>

definition randint :: "int \<Rightarrow> int \<Rightarrow> nat \<Rightarrow> int" where
  "randint a b r = a + int (r mod nat (b - a + 1))"

text \<open>The \<^verbatim>\<open>else\<close> branch: \<^verbatim>\<open>i = random.randint(0, h - t_h) if h - t_h > 0 else 0\<close>,
  and the same for \<open>j\<close>.\<close>

definition uniform_origin :: "nat \<Rightarrow> nat \<Rightarrow> nat \<Rightarrow> nat \<Rightarrow> nat \<Rightarrow> nat \<Rightarrow> int \<times> int" where
  "uniform_origin h w t_h t_w r1 r2 =
     (let i = (if int h - int t_h > 0 then randint 0 (int h - int t_h) r1 else 0);
          j = (if int w - int t_w > 0 then randint 0 (int w - int t_w) r2 else 0)
      in (i, j))"

text \<open>
  The branch under the comment \<^verbatim>\<open># make sure to crop the text region\<close>. On an array
  of three dimensions \<^verbatim>\<open>np.where\<close> gives three index vectors, and subtracting the
  pair \<^verbatim>\<open>(t_h, t_w)\<close> raises ValueError.
\<close>

definition text_origin ::
  "'a::{zero,linorder} raster \<Rightarrow> nat \<Rightarrow> nat \<Rightarrow> nat \<Rightarrow> nat \<Rightarrow> nat \<Rightarrow> nat \<Rightarrow> error + int \<times> int" where
  "text_origin m h w t_h t_w r1 r2 =
     (case m of
        Color rows \<Rightarrow> Inl ValueError
      | Gray rows \<Rightarrow>
          let coords = positive_coords rows;
              tl0 = max 0 (int (Min (set (map fst coords))) - int t_h);
              tl1 = max 0 (int (Min (set (map snd coords))) - int t_w);
              br0 = max 0 (int (Max (set (map fst coords))) - int t_h);
              br1 = max 0 (int (Max (set (map snd coords))) - int t_w);
              br0 = min br0 (int h - int t_h);
              br1 = min br1 (int w - int t_w);
              i = (if tl0 < br0 then randint tl0 br0 r1 else 0);
              j = (if tl1 < br1 then randint tl1 br1 r2 else 0)
          in Inr (i, j))"

text \<open>
  \<^verbatim>\<open>if random.random() > 3.0 / 8.0 and np.max(imgs[1]) > 0\<close>: the draw is \<open>u\<close>; the
  second test is evaluated only when the first holds, and \<^verbatim>\<open>imgs[1]\<close> raises IndexError
  on a list of one raster.
\<close>

definition crop_origin ::
  "'a::{zero,linorder} raster list \<Rightarrow> nat \<Rightarrow> nat \<Rightarrow> nat \<Rightarrow> nat \<Rightarrow> real \<Rightarrow> nat \<Rightarrow> nat
     \<Rightarrow> error + int \<times> int" where
  "crop_origin imgs h w t_h t_w u r1 r2 =
     (if u > 3 / 8 then
        (if length imgs \<le> 1 then Inl IndexError
         else case np_max (imgs ! 1) of
                Inl e \<Rightarrow> Inl e
              | Inr m \<Rightarrow>
                  if m > 0 then text_origin (imgs ! 1) h w t_h t_w r1 r2
                  else Inr (uniform_origin h w t_h t_w r1 r2))
      else Inr (uniform_origin h w t_h t_w r1 r2))"

text \<open>
  \<^verbatim>\<open>cv2.copyMakeBorder(img, 0, bottom, 0, right, borderType=cv2.BORDER_CONSTANT,
  value=...)\<close> on a source that is not empty: \<open>right\<close> pixels of the value are appended to
  every row and \<open>bottom\<close> rows of the value below.
\<close>

definition copyMakeBorder :: "'p list list \<Rightarrow> nat \<Rightarrow> nat \<Rightarrow> 'p \<Rightarrow> 'p list list" where
  "copyMakeBorder img bottom right val =
     map (\<lambda>row. row @ replicate right val) img
     @ replicate bottom (replicate (width_of img + right) val)"

text \<open>The slice \<^verbatim>\<open>imgs[idx][i:i + t_h, j:j + t_w]\<close> for an origin that is not negative.\<close>

definition slice2 :: "'p list list \<Rightarrow> int \<Rightarrow> int \<Rightarrow> nat \<Rightarrow> nat \<Rightarrow> 'p list list" where
  "slice2 rows i j t_h t_w = map (\<lambda>row. take t_w (drop (nat j) row)) (take t_h (drop (nat i) rows))"

text \<open>The body of the loop \<^verbatim>\<open>for idx in range(len(imgs))\<close>: the pad value is a tuple of
  zeros, one per channel, for an array of three dimensions and 0 otherwise.\<close>

fun crop_pad :: "int \<Rightarrow> int \<Rightarrow> nat \<Rightarrow> nat \<Rightarrow> nat \<Rightarrow> nat \<Rightarrow> 'a::zero raster \<Rightarrow> 'a raster" where
  "crop_pad i j t_h t_w p_h p_w (Color rows) =
     (let s3_length = channels (Color rows);
          img = slice2 rows i j t_h t_w
      in Color (copyMakeBorder img (p_h - t_h) (p_w - t_w) (replicate s3_length 0)))"
| "crop_pad i j t_h t_w p_h p_w (Gray rows) =
     (let img = slice2 rows i j t_h t_w
      in Gray (copyMakeBorder img (p_h - t_h) (p_w - t_w) 0))"

definition random_crop_padding ::
  "'a::{zero,linorder} raster list \<Rightarrow> nat \<times> nat \<Rightarrow> real \<Rightarrow> nat \<Rightarrow> nat \<Rightarrow> error + 'a raster list" where
  "random_crop_padding imgs target_size u r1 r2 =
     (case imgs of
        [] \<Rightarrow> Inl IndexError
      | img0 # _ \<Rightarrow>
          (case shape2 img0 of (h, w) \<Rightarrow>
           case target_size of (t_w, t_h) \<Rightarrow>
           case target_size of (p_w, p_h) \<Rightarrow>
             if w = t_w \<and> h = t_h then Inr imgs
             else
               let t_h = (if t_h < h then t_h else h);
                   t_w = (if t_w < w then t_w else w)
               in case crop_origin imgs h w t_h t_w u r1 r2 of
                    Inl e \<Rightarrow> Inl e
                  | Inr (i, j) \<Rightarrow> Inr (map (crop_pad i j t_h t_w p_h p_w) imgs)))"

text \<open>A raster of \<open>h\<close> rows and \<open>w\<close> columns, and its pixel at a position as the list of
  its channels.\<close>

fun raster_shape :: "nat \<Rightarrow> nat \<Rightarrow> 'a raster \<Rightarrow> bool" where
  "raster_shape h w (Gray rows) = has_shape h w rows"
| "raster_shape h w (Color rows) = has_shape h w rows"

fun pixel_at :: "'a raster \<Rightarrow> nat \<Rightarrow> nat \<Rightarrow> 'a list" where
  "pixel_at (Gray rows) r c = [rows ! r ! c]"
| "pixel_at (Color rows) r c = rows ! r ! c"

fun is_gray :: "'a raster \<Rightarrow> bool" where
  "is_gray (Gray rows) = True"
| "is_gray (Color rows) = False"

text \<open>A raster has a pixel above 0 (a foreground pixel).\<close>

fun has_foreground :: "'a::{zero,linorder} raster \<Rightarrow> bool" where
  "has_foreground (Gray rows) = (\<exists>v\<in>set (concat rows). v > 0)"
| "has_foreground (Color rows) = (\<exists>v\<in>set (concat (concat rows)). v > 0)"

section \<open>Properties\<close>

subsection \<open>Scale normalisation\<close>

lemma align32_dvd: "32 dvd align32 h"
  unfolding align32_def by presburger

lemma align32_bounds: "h \<le> align32 h \<and> align32 h < h + 32"
  unfolding align32_def by presburger

lemma align32_least: "32 dvd m \<Longrightarrow> h \<le> m \<Longrightarrow> align32 h \<le> m"
  unfolding align32_def by presburger

lemma align32_pos: "align32 h \<le> 0 \<longleftrightarrow> h \<le> 0"
  unfolding align32_def by presburger

lemma scale_aligned_Inr:
  "scale_aligned ops (h0, w0) scale = Inr (h, w) \<longleftrightarrow>
     (\<exists>sh sw. scaled_dim ops h0 scale = Inr sh \<and> scaled_dim ops w0 scale = Inr sw
        \<and> 0 < sh \<and> 0 < sw \<and> h = align32 sh \<and> w = align32 sw)"
  by (auto simp: scale_aligned_def cv2_resize_def Let_def align32_pos split: sum.splits)

lemma scale_aligned_short_Inr:
  "scale_aligned_short ops (h0, w0) short_size = Inr (h, w) \<longleftrightarrow>
     min h0 w0 \<noteq> 0
     \<and> (\<exists>sh sw.
          scaled_dim ops h0 (div_f ops (mul_f ops (of_int_f ops short_size) (one_f ops))
                                (of_int_f ops (min h0 w0))) = Inr sh
        \<and> scaled_dim ops w0 (div_f ops (mul_f ops (of_int_f ops short_size) (one_f ops))
                                (of_int_f ops (min h0 w0))) = Inr sw
        \<and> 0 < sh \<and> 0 < sw \<and> h = align32 sh \<and> w = align32 sw)"
  by (auto simp: scale_aligned_short_def cv2_resize_def Let_def align32_pos split: sum.splits)

text \<open>
  C6. Whatever the float arithmetic, the input shape, the scale and the short size, an
  image returned by \<open>scale_aligned\<close> (train mode) or by \<open>scale_aligned_short\<close> (test mode)
  has a height and a width that are multiples of 32; each is the scaled dimension, the
  integer \<^verbatim>\<open>int(h * scale + 0.5)\<close> that the float arithmetic gives, rounded up to the
  next multiple of 32 (the least multiple of 32 that is not below it). The image is
  returned exactly when both scaled dimensions are computed and positive (and, in test
  mode, the shorter side of the input is not 0).
\<close>

theorem resize_multiple_of_32:
  "(scale_aligned ops (h0, w0) scale = Inr (h, w) \<longrightarrow>
      32 dvd h \<and> 32 dvd w
      \<and> (\<exists>sh sw. scaled_dim ops h0 scale = Inr sh \<and> scaled_dim ops w0 scale = Inr sw
            \<and> h = align32 sh \<and> w = align32 sw))
   \<and> (scale_aligned_short ops (h0, w0) short_size = Inr (h, w) \<longrightarrow>
      32 dvd h \<and> 32 dvd w
      \<and> (\<exists>sh sw.
            scaled_dim ops h0 (div_f ops (mul_f ops (of_int_f ops short_size) (one_f ops))
                                  (of_int_f ops (min h0 w0))) = Inr sh
          \<and> scaled_dim ops w0 (div_f ops (mul_f ops (of_int_f ops short_size) (one_f ops))
                                  (of_int_f ops (min h0 w0))) = Inr sw
          \<and> h = align32 sh \<and> w = align32 sw))
   \<and> (\<forall>x m. x \<le> align32 x \<and> align32 x < x + 32 \<and> (32 dvd m \<and> x \<le> m \<longrightarrow> align32 x \<le> m))
   \<and> (scaled_dim ops h0 scale = Inr sh \<and> scaled_dim ops w0 scale = Inr sw \<and> 0 < sh \<and> 0 < sw
        \<longrightarrow> scale_aligned ops (h0, w0) scale = Inr (align32 sh, align32 sw))
   \<and> (min h0 w0 \<noteq> 0
        \<and> scaled_dim ops h0 (div_f ops (mul_f ops (of_int_f ops short_size) (one_f ops))
                                (of_int_f ops (min h0 w0))) = Inr sh
        \<and> scaled_dim ops w0 (div_f ops (mul_f ops (of_int_f ops short_size) (one_f ops))
                                (of_int_f ops (min h0 w0))) = Inr sw
        \<and> 0 < sh \<and> 0 < sw
        \<longrightarrow> scale_aligned_short ops (h0, w0) short_size = Inr (align32 sh, align32 sw))"
proof (intro conjI impI allI)
  assume a: "scale_aligned ops (h0, w0) scale = Inr (h, w)"
  then obtain sh sw where r: "scaled_dim ops h0 scale = Inr sh" "scaled_dim ops w0 scale = Inr sw"
    "h = align32 sh" "w = align32 sw"
    unfolding scale_aligned_Inr by blast
  then show "32 dvd h" "32 dvd w" by (simp_all add: align32_dvd)
  show "\<exists>sh sw. scaled_dim ops h0 scale = Inr sh \<and> scaled_dim ops w0 scale = Inr sw
            \<and> h = align32 sh \<and> w = align32 sw"
    using r by blast
next
  let ?s = "div_f ops (mul_f ops (of_int_f ops short_size) (one_f ops)) (of_int_f ops (min h0 w0))"
  assume a: "scale_aligned_short ops (h0, w0) short_size = Inr (h, w)"
  then obtain sh sw where r: "scaled_dim ops h0 ?s = Inr sh" "scaled_dim ops w0 ?s = Inr sw"
    "h = align32 sh" "w = align32 sw"
    unfolding scale_aligned_short_Inr by blast
  then show "32 dvd h" "32 dvd w" by (simp_all add: align32_dvd)
  show "\<exists>sh sw. scaled_dim ops h0 ?s = Inr sh \<and> scaled_dim ops w0 ?s = Inr sw
          \<and> h = align32 sh \<and> w = align32 sw"
    using r by blast
next
  fix x m :: int
  show "x \<le> align32 x" "align32 x < x + 32" using align32_bounds [of x] by simp_all
  assume "32 dvd m \<and> x \<le> m"
  then show "align32 x \<le> m" using align32_least by blast
next
  assume "scaled_dim ops h0 scale = Inr sh \<and> scaled_dim ops w0 scale = Inr sw \<and> 0 < sh \<and> 0 < sw"
  then show "scale_aligned ops (h0, w0) scale = Inr (align32 sh, align32 sw)"
    unfolding scale_aligned_Inr by blast
next
  let ?s = "div_f ops (mul_f ops (of_int_f ops short_size) (one_f ops)) (of_int_f ops (min h0 w0))"
  assume "min h0 w0 \<noteq> 0 \<and> scaled_dim ops h0 ?s = Inr sh \<and> scaled_dim ops w0 ?s = Inr sw
        \<and> 0 < sh \<and> 0 < sw"
  then show "scale_aligned_short ops (h0, w0) short_size = Inr (align32 sh, align32 sw)"
    unfolding scale_aligned_short_Inr by blast
qed

text \<open>
  The shape 100 by 200 with the scale 0.7 and with the short size 640: binary64 gives the
  scaled dimensions 70 and 140, and 640 and 1280, as exact arithmetic does.
\<close>

theorem resize_multiple_of_32_witness:
  "scaled_dim exact_ops 100 (7 / 10) = Inr 70 \<and> scaled_dim exact_ops 200 (7 / 10) = Inr 140
   \<and> scale_aligned exact_ops (100, 200) (7 / 10) = Inr (96, 160)
   \<and> scale_aligned_short exact_ops (100, 200) 640 = Inr (640, 1280)
   \<and> (32::int) dvd 96 \<and> (32::int) dvd 160 \<and> (32::int) dvd 640 \<and> (32::int) dvd 1280"
proof -
  have d: "scaled_dim exact_ops 100 (7 / 10) = Inr 70" "scaled_dim exact_ops 200 (7 / 10) = Inr 140"
    by (simp_all add: scaled_dim_def exact_ops_def py_int_def)
  have al: "align32 70 = 96" "align32 140 = 160" by (simp_all add: align32_def)
  from resize_multiple_of_32 [of exact_ops 100 200 "7 / 10" 96 160 640 70 140] d
  have a: "scale_aligned exact_ops (100, 200) (7 / 10) = Inr (96, 160)"
    by (simp add: al)
  have b: "scale_aligned_short exact_ops (100, 200) 640 = Inr (640, 1280)"
    by (simp add: scale_aligned_short_def scaled_dim_def exact_ops_def cv2_resize_def
        align32_def py_int_def)
  from a resize_multiple_of_32 [of exact_ops 100 200 "7 / 10" 96 160 640 70 140]
  have "(32::int) dvd 96 \<and> (32::int) dvd 160" by blast
  moreover from b resize_multiple_of_32 [of exact_ops 100 200 "7 / 10" 640 1280 640 70 140]
  have "(32::int) dvd 640 \<and> (32::int) dvd 1280" by blast
  ultimately show ?thesis using a b d by blast
qed

subsection \<open>Post-crop pruning\<close>

lemma set_np_unique: "set (np_unique instance) = set (concat instance)"
  by (simp add: np_unique_def)

lemma count_label_pos: "0 < count_label instance l \<longleftrightarrow> l \<in> set (concat instance)"
  by (auto simp: count_label_def filter_empty_conv)

lemma update_word_mask_loop_Inr:
  "update_word_mask_loop labels instance before wm = Inr wm' \<Longrightarrow>
     length wm' = length wm
     \<and> (\<forall>k\<in>set labels. cleared instance before k \<longrightarrow> k < length wm)
     \<and> (\<forall>k<length wm. wm' ! k =
           (if k \<in> set labels \<and> cleared instance before k then 0 else wm ! k))"
proof (induction labels arbitrary: wm)
  case Nil
  then show ?case by simp
next
  case (Cons l ls)
  show ?case
  proof (cases "cleared instance before l")
    case False
    then have "update_word_mask_loop ls instance before wm = Inr wm'"
      using Cons.prems by (auto simp: cleared_def split: if_splits)
    from Cons.IH [OF this] False show ?thesis by auto
  next
    case True
    then have lt: "l < length wm"
      and run: "update_word_mask_loop ls instance before (wm[l := 0]) = Inr wm'"
      using Cons.prems by (auto simp: cleared_def clear_slot_def split: if_splits)
    from Cons.IH [OF run] True lt show ?thesis by (auto simp: nth_list_update)
  qed
qed

lemma update_word_mask_loop_returns:
  "\<forall>l\<in>set labels. cleared instance before l \<longrightarrow> l < length wm \<Longrightarrow>
     \<exists>wm'. update_word_mask_loop labels instance before wm = Inr wm'"
proof (induction labels arbitrary: wm)
  case Nil
  then show ?case by simp
next
  case (Cons l ls)
  have "\<forall>k\<in>set ls. cleared instance before k \<longrightarrow> k < length (wm[l := 0])"
    using Cons.prems by simp
  with Cons show ?case by (auto simp: cleared_def clear_slot_def)
qed

lemma update_word_mask_Inr:
  assumes "update_word_mask instance before wm = Inr wm'"
  shows "length wm' = length wm"
    and "\<And>k. k \<in> set (concat instance) \<Longrightarrow> cleared instance before k \<Longrightarrow> k < length wm"
    and "\<And>k. k < length wm \<Longrightarrow> wm' ! k =
           (if k \<in> set (concat instance) \<and> cleared instance before k then 0 else wm ! k)"
proof -
  note r = update_word_mask_loop_Inr [OF assms [unfolded update_word_mask_def]]
  show "length wm' = length wm" using r by blast
  show "k < length wm" if "k \<in> set (concat instance)" "cleared instance before k" for k
    using r that set_np_unique by blast
  show "wm' ! k = (if k \<in> set (concat instance) \<and> cleared instance before k then 0 else wm ! k)"
    if "k < length wm" for k
    using r that set_np_unique by metis
qed

text \<open>
  The slot of an instance id that is absent after the crop is never visited, since the
  loop runs over the labels of the cropped map: its slot keeps its value. (The branch
  \<^verbatim>\<open>if np.sum(ind) == 0\<close> of the source cannot be taken.)
\<close>

lemma update_word_mask_absent_id:
  "update_word_mask [[0, 0, 2]] [[1, 1, 2]] [0, 1, 1] = Inr [0, 1, 1]"
  by code_simp

text \<open>
  C1, as the code has it. Let an instance id be nonzero and present in the instance map
  after the crop. If its surviving pixel count is at most 90% of its pre-crop pixel
  count, \<open>update_word_mask\<close> sets its word-mask slot to 0; if it retains more than 90% of
  its pixels, its slot keeps its value. In particular, for an instance of 100 pixels,
  85 remaining pixels make the slot 0 and 95 remaining pixels leave it as it was. The
  function returns whenever every label of the cropped map is an index of the word mask.
  (Nothing is said here of an id that is absent after the crop.)
\<close>

theorem update_word_mask_prunes:
  "(update_word_mask instance before wm = Inr wm' \<and> l \<in> set (concat instance) \<and> l \<noteq> 0 \<longrightarrow>
      (10 * count_label instance l \<le> 9 * count_label before l \<longrightarrow>
         l < length wm' \<and> wm' ! l = 0)
      \<and> (9 * count_label before l < 10 * count_label instance l \<and> l < length wm \<longrightarrow>
         wm' ! l = wm ! l)
      \<and> (count_label before l = 100 \<and> count_label instance l = 85 \<longrightarrow>
         l < length wm' \<and> wm' ! l = 0)
      \<and> (count_label before l = 100 \<and> count_label instance l = 95 \<and> l < length wm \<longrightarrow>
         wm' ! l = wm ! l))
   \<and> ((\<forall>k\<in>set (concat instance). k < length wm) \<longrightarrow>
        (\<exists>r. update_word_mask instance before wm = Inr r))"
proof (intro conjI impI)
  assume a: "update_word_mask instance before wm = Inr wm' \<and> l \<in> set (concat instance) \<and> l \<noteq> 0"
  then have a1: "update_word_mask instance before wm = Inr wm'" by simp
  note r = update_word_mask_Inr [OF a1]
  have low: "l < length wm' \<and> wm' ! l = 0"
    if "10 * count_label instance l \<le> 9 * count_label before l"
  proof -
    have c: "cleared instance before l"
      using a that by (simp add: cleared_def ratio_above_09_def)
    then have "l < length wm" using a r(2) by blast
    then show ?thesis using a c r(1) r(3) [of l] by simp
  qed
  have high: "wm' ! l = wm ! l"
    if "9 * count_label before l < 10 * count_label instance l" and "l < length wm"
  proof -
    have "0 < count_label instance l" using a count_label_pos by blast
    then have "\<not> cleared instance before l"
      using that(1) by (simp add: cleared_def ratio_above_09_def)
    then show ?thesis using a r(3) [of l] that(2) by simp
  qed
  {
    assume "10 * count_label instance l \<le> 9 * count_label before l"
    then show "l < length wm'" "wm' ! l = 0" using low by simp_all
  }
  {
    assume "9 * count_label before l < 10 * count_label instance l \<and> l < length wm"
    then show "wm' ! l = wm ! l" using high by simp
  }
  {
    assume "count_label before l = 100 \<and> count_label instance l = 85"
    then show "l < length wm'" "wm' ! l = 0" using low by simp_all
  }
  {
    assume "count_label before l = 100 \<and> count_label instance l = 95 \<and> l < length wm"
    then show "wm' ! l = wm ! l" using high by simp
  }
next
  assume "\<forall>k\<in>set (concat instance). k < length wm"
  then have "\<forall>k\<in>set (np_unique instance). cleared instance before k \<longrightarrow> k < length wm"
    by (simp add: set_np_unique)
  from update_word_mask_loop_returns [OF this]
  show "\<exists>r. update_word_mask instance before wm = Inr r"
    by (simp add: update_word_mask_def)
qed

theorem update_word_mask_prunes_witness:
  "update_word_mask [replicate 85 1 @ replicate 15 0] (replicate 10 (replicate 10 1)) [0, 1, 1]
     = Inr [0, 0, 1]
   \<and> update_word_mask [replicate 95 1 @ replicate 5 0] (replicate 10 (replicate 10 1)) [0, 1, 1]
     = Inr [0, 1, 1]
   \<and> count_label (replicate 10 (replicate 10 1)) 1 = 100
   \<and> count_label [replicate 85 1 @ replicate 15 0] 1 = 85
   \<and> count_label [replicate 95 1 @ replicate 5 0] 1 = 95
   \<and> ([0, 0, 1] :: int list) ! 1 = 0
   \<and> ([0, 1, 1] :: int list) ! 1 = [0, 1, 1] ! 1"
proof -
  have a: "update_word_mask [replicate 85 1 @ replicate 15 0]
             (replicate 10 (replicate 10 1)) [0, 1, 1] = Inr [0, 0, 1]"
    by code_simp
  have b: "update_word_mask [replicate 95 1 @ replicate 5 0]
             (replicate 10 (replicate 10 1)) [0, 1, 1] = Inr [0, 1, 1]"
    by code_simp
  have c: "count_label (replicate 10 (replicate 10 1)) 1 = 100"
    "count_label [replicate 85 1 @ replicate 15 0] 1 = 85"
    "count_label [replicate 95 1 @ replicate 5 0] 1 = 95"
    by code_simp+
  have m: "(1::nat) \<in> set (concat [replicate 85 1 @ replicate 15 0])"
    "(1::nat) \<in> set (concat [replicate 95 1 @ replicate 5 0])"
    by simp_all
  from update_word_mask_prunes [of "[replicate 85 1 @ replicate 15 0]"
      "replicate 10 (replicate 10 1)" "[0, 1, 1]" "[0, 0, 1]" 1] a c m
  have "([0, 0, 1] :: int list) ! 1 = 0" by simp
  moreover
  from update_word_mask_prunes [of "[replicate 95 1 @ replicate 5 0]"
      "replicate 10 (replicate 10 1)" "[0, 1, 1]" "[0, 1, 1]" 1] b c m
  have "([0, 1, 1] :: int list) ! 1 = [0, 1, 1] ! 1" by simp
  ultimately show ?thesis using a b c by blast
qed

text \<open>
  The claim as the specification words it fails at the boundary: an instance of 10 pixels
  that keeps 9 of them retains 90%, which is at least 90%, and its slot is cleared.
\<close>

theorem update_word_mask_boundary_counterexample:
  "count_label [[1, 1, 1, 1, 1, 1, 1, 1, 1, 1]] 1 = 10
   \<and> count_label [[1, 1, 1, 1, 1, 1, 1, 1, 1]] 1 = 9
   \<and> 10 * count_label [[1, 1, 1, 1, 1, 1, 1, 1, 1]] 1
        \<ge> 9 * count_label [[1, 1, 1, 1, 1, 1, 1, 1, 1, 1]] 1
   \<and> update_word_mask [[1, 1, 1, 1, 1, 1, 1, 1, 1]] [[1, 1, 1, 1, 1, 1, 1, 1, 1, 1]] [0, 1]
        = Inr [0, 0]
   \<and> ([0, 0] :: int list) ! 1 \<noteq> [0, 1] ! 1"
  by code_simp

text \<open>
  C10. Whenever \<open>update_word_mask\<close> returns, the returned mask has the length of the input
  mask; every slot either keeps its input value or is 0 (a slot is only ever cleared, never
  set to 1), so that every slot of a mask of flags (values that are not negative) is less than or
  equal to its input value; and a slot whose index does not occur in the instance map
  after the crop keeps its value.
\<close>

theorem update_word_mask_monotone:
  "update_word_mask instance before wm = Inr wm' \<Longrightarrow>
     length wm' = length wm
     \<and> (\<forall>k<length wm.
           (wm' ! k = wm ! k \<or> wm' ! k = 0)
           \<and> (0 \<le> wm ! k \<longrightarrow> wm' ! k \<le> wm ! k)
           \<and> (k \<notin> set (concat instance) \<longrightarrow> wm' ! k = wm ! k))"
proof -
  assume a: "update_word_mask instance before wm = Inr wm'"
  note r = update_word_mask_Inr [OF a]
  show ?thesis
  proof (intro conjI allI impI)
    show "length wm' = length wm" by (rule r(1))
  next
    fix k assume "k < length wm"
    then show "wm' ! k = wm ! k \<or> wm' ! k = 0" using r(3) [of k] by simp
  next
    fix k assume "k < length wm" "0 \<le> wm ! k"
    then show "wm' ! k \<le> wm ! k" using r(3) [of k] by simp
  next
    fix k assume "k < length wm" "k \<notin> set (concat instance)"
    then show "wm' ! k = wm ! k" using r(3) [of k] by simp
  qed
qed

theorem update_word_mask_monotone_witness:
  "update_word_mask [[1, 1, 2, 0, 0, 0]] [[1, 1, 2, 2, 2, 2]] [0, 1, 1, 1] = Inr [0, 1, 0, 1]
   \<and> length ([0, 1, 0, 1] :: int list) = length ([0, 1, 1, 1] :: int list)
   \<and> ([0, 1, 0, 1] :: int list) ! 2 \<le> [0, 1, 1, 1] ! 2
   \<and> ([0, 1, 0, 1] :: int list) ! 3 = [0, 1, 1, 1] ! 3"
proof -
  have a: "update_word_mask [[1, 1, 2, 0, 0, 0]] [[1, 1, 2, 2, 2, 2]] [0, 1, 1, 1]
             = Inr [0, 1, 0, 1]"
    by code_simp
  from update_word_mask_monotone [OF a] show ?thesis using a by simp
qed

subsection \<open>Word Label Table\<close>

lemma char2id_special:
  "char2id ''EOS'' = Some 36" "char2id ''PAD'' = Some 37" "char2id ''UNK'' = Some 38"
  by (simp_all add: char2id_def voc_def digits_def ascii_lowercase_def upt_rec numeral_eq_Suc)

lemma special_ids: "EOS = 36" "PAD = 37" "UNK = 38"
  by (simp_all add: EOS_def PAD_def UNK_def char2id_special)

lemma encode_chars_length: "length (encode_chars j cs gw) = length gw"
  by (induction cs arbitrary: j gw) auto

lemma encode_chars_nth:
  "k < length gw \<Longrightarrow> encode_chars j cs gw ! k =
     (if j \<le> k \<and> k < j + length cs \<and> k \<le> max_word_len - 1 then encode_char (cs ! (k - j)) else gw ! k)"
proof (induction cs arbitrary: j gw)
  case Nil
  then show ?case by simp
next
  case (Cons c cs)
  show ?case
  proof (cases "j > max_word_len - 1")
    case True
    then show ?thesis by auto
  next
    case False
    have "k < length (gw[j := encode_char c])" using Cons.prems by simp
    from Cons.IH [OF this, of "Suc j"] False Cons.prems show ?thesis
      by (auto simp: nth_list_update nth_Cons' Suc_diff_le)
  qed
qed

lemma encode_word_slot: "encode_word w = slot_of_word w"
proof (rule nth_equalityI)
  show "length (encode_word w) = length (slot_of_word w)"
    by (auto simp: encode_word_def slot_of_word_def Let_def encode_chars_length lower_def max_word_len_def)
next
  fix k assume "k < length (encode_word w)"
  then have k: "k < max_word_len"
    by (auto simp: encode_word_def Let_def encode_chars_length split: if_splits)
  then show "encode_word w ! k = slot_of_word w ! k"
    by (auto simp: encode_word_def slot_of_word_def Let_def encode_chars_length encode_chars_nth lower_def
        nth_list_update nth_append max_word_len_def)
qed

lemma word_table_loop_spec:
  "i + length ws < length gt \<Longrightarrow> length wm = length gt \<Longrightarrow>
   \<exists>gt' wm'. word_table_loop i ws (gt, wm) = Inr (gt', wm')
     \<and> length gt' = length gt \<and> length wm' = length wm
     \<and> (\<forall>k<length gt.
           gt' ! k = (if i < k \<and> k \<le> i + length ws \<and> \<not> skipped (ws ! (k - i - 1))
                      then encode_word (ws ! (k - i - 1)) else gt ! k)
         \<and> wm' ! k = (if i < k \<and> k \<le> i + length ws \<and> \<not> skipped (ws ! (k - i - 1))
                      then 1 else wm ! k))"
proof (induction ws arbitrary: i gt wm)
  case Nil
  then show ?case by auto
next
  case (Cons w ws)
  show ?case
  proof (cases "skipped w")
    case True
    have "Suc i + length ws < length gt" using Cons.prems by simp
    from Cons.IH [OF this Cons.prems(2)] obtain gt' wm' where
      r: "word_table_loop (Suc i) ws (gt, wm) = Inr (gt', wm')"
         "length gt' = length gt" "length wm' = length wm"
         "\<forall>k<length gt.
           gt' ! k = (if Suc i < k \<and> k \<le> Suc i + length ws \<and> \<not> skipped (ws ! (k - Suc i - 1))
                      then encode_word (ws ! (k - Suc i - 1)) else gt ! k)
         \<and> wm' ! k = (if Suc i < k \<and> k \<le> Suc i + length ws \<and> \<not> skipped (ws ! (k - Suc i - 1))
                      then 1 else wm ! k)"
      by blast
    have "word_table_loop i (w # ws) (gt, wm) = Inr (gt', wm')"
      using True r(1) by (simp add: skipped_def)
    moreover have "\<forall>k<length gt.
           gt' ! k = (if i < k \<and> k \<le> i + length (w # ws) \<and> \<not> skipped ((w # ws) ! (k - i - 1))
                      then encode_word ((w # ws) ! (k - i - 1)) else gt ! k)
         \<and> wm' ! k = (if i < k \<and> k \<le> i + length (w # ws) \<and> \<not> skipped ((w # ws) ! (k - i - 1))
                      then 1 else wm ! k)"
      using r(4) True by (auto simp: nth_Cons' Suc_diff_le)
    ultimately show ?thesis using r(2,3) by blast
  next
    case False
    let ?gt = "gt[i + 1 := encode_word w]" and ?wm = "wm[i + 1 := 1]"
    have "Suc i + length ws < length ?gt" "length ?wm = length ?gt" using Cons.prems by simp_all
    from Cons.IH [OF this] obtain gt' wm' where
      r: "word_table_loop (Suc i) ws (?gt, ?wm) = Inr (gt', wm')"
         "length gt' = length ?gt" "length wm' = length ?wm"
         "\<forall>k<length ?gt.
           gt' ! k = (if Suc i < k \<and> k \<le> Suc i + length ws \<and> \<not> skipped (ws ! (k - Suc i - 1))
                      then encode_word (ws ! (k - Suc i - 1)) else ?gt ! k)
         \<and> wm' ! k = (if Suc i < k \<and> k \<le> Suc i + length ws \<and> \<not> skipped (ws ! (k - Suc i - 1))
                      then 1 else ?wm ! k)"
      by blast
    have "word_table_loop i (w # ws) (gt, wm) = Inr (gt', wm')"
      using False r(1) Cons.prems by (simp add: skipped_def)
    moreover have "\<forall>k<length gt.
           gt' ! k = (if i < k \<and> k \<le> i + length (w # ws) \<and> \<not> skipped ((w # ws) ! (k - i - 1))
                      then encode_word ((w # ws) ! (k - i - 1)) else gt ! k)
         \<and> wm' ! k = (if i < k \<and> k \<le> i + length (w # ws) \<and> \<not> skipped ((w # ws) ! (k - i - 1))
                      then 1 else wm ! k)"
      using r(4) False Cons.prems by (auto simp: nth_Cons' nth_list_update Suc_diff_le)
    ultimately show ?thesis using r(2,3) by auto
  qed
qed

lemma slot_Hi: "slot_of_word ''Hi'' = [encode_char CHR ''h'', encode_char CHR ''i'', EOS] @ replicate 29 PAD"
  by code_simp

lemma word_label_table_spec:
  "\<exists>gt_words word_mask. word_label_table words = Inr (gt_words, word_mask)
     \<and> length gt_words = max_word_num + 1 \<and> length word_mask = max_word_num + 1
     \<and> gt_words ! 0 = replicate max_word_len PAD \<and> word_mask ! 0 = 0
     \<and> (\<forall>i < min (length words) max_word_num.
          if words ! i = ''###'' \<or> words ! i = ''???''
          then gt_words ! (i + 1) = replicate max_word_len PAD \<and> word_mask ! (i + 1) = 0
          else gt_words ! (i + 1) = slot_of_word (words ! i) \<and> word_mask ! (i + 1) = 1)
     \<and> (\<forall>k. min (length words) max_word_num < k \<and> k \<le> max_word_num \<longrightarrow>
          gt_words ! k = replicate max_word_len PAD \<and> word_mask ! k = 0)"
proof -
  define ws where "ws = (if length words > max_word_num then take max_word_num words else words)"
  define gt0 where "gt0 = replicate (max_word_num + 1) (replicate max_word_len PAD)"
  define wm0 :: "int list" where "wm0 = replicate (max_word_num + 1) 0"
  have len: "length ws = min (length words) max_word_num" by (auto simp: ws_def)
  have nth: "ws ! i = words ! i" if "i < length ws" for i using that by (auto simp: ws_def)
  have "0 + length ws < length gt0" "length wm0 = length gt0"
    using len by (simp_all add: gt0_def wm0_def)
  from word_table_loop_spec [OF this] obtain gt' wm' where
    r: "word_table_loop 0 ws (gt0, wm0) = Inr (gt', wm')"
       "length gt' = length gt0" "length wm' = length wm0"
       "\<And>k. k < length gt0 \<Longrightarrow>
           gt' ! k = (if 0 < k \<and> k \<le> 0 + length ws \<and> \<not> skipped (ws ! (k - 0 - 1))
                      then encode_word (ws ! (k - 0 - 1)) else gt0 ! k)
         \<and> wm' ! k = (if 0 < k \<and> k \<le> 0 + length ws \<and> \<not> skipped (ws ! (k - 0 - 1))
                      then 1 else wm0 ! k)"
    by blast
  have run: "word_label_table words = Inr (gt', wm')"
    using r(1) by (simp add: word_label_table_def ws_def gt0_def wm0_def Let_def)
  have l: "length gt' = max_word_num + 1" "length wm' = max_word_num + 1"
    using r(2,3) by (simp_all add: gt0_def wm0_def)
  have g0: "gt0 ! k = replicate max_word_len PAD \<and> wm0 ! k = 0" if "k < length gt0" for k
  proof -
    have "k < max_word_num + 1" using that by (simp add: gt0_def)
    then show ?thesis unfolding gt0_def wm0_def by (simp only: nth_replicate)
  qed
  have z: "gt' ! 0 = replicate max_word_len PAD \<and> wm' ! 0 = 0"
  proof -
    have "0 < length gt0" by (simp add: gt0_def)
    from r(4) [OF this] g0 [OF this] show ?thesis by simp
  qed
  have s: "if words ! i = ''###'' \<or> words ! i = ''???''
          then gt' ! (i + 1) = replicate max_word_len PAD \<and> wm' ! (i + 1) = 0
          else gt' ! (i + 1) = slot_of_word (words ! i) \<and> wm' ! (i + 1) = 1"
    if "i < min (length words) max_word_num" for i
  proof -
    have i: "i < length ws" using that len by simp
    have "i + 1 < length gt0" using that by (simp add: gt0_def)
    from r(4) [OF this] g0 [OF this] i nth [OF i] show ?thesis
      by (simp add: skipped_def encode_word_slot)
  qed
  have u: "gt' ! k = replicate max_word_len PAD \<and> wm' ! k = 0"
    if "min (length words) max_word_num < k \<and> k \<le> max_word_num" for k
  proof -
    have k: "\<not> k \<le> 0 + length ws" using that len by arith
    have "k < length gt0" using that by (simp add: gt0_def)
    from r(4) [OF this] g0 [OF this] k show ?thesis by simp
  qed
  show ?thesis using run l z s u by blast
qed

lemma encode_char_unknown:
  assumes "c \<notin> set (digits @ ascii_lowercase)"
  shows "encode_char c = UNK"
proof -
  have "[c] \<notin> set voc" using assms by (auto simp: voc_def)
  then have "[c] \<notin> fst ` set (zip voc (map int [0..<length voc]))"
    by (metis length_map length_upt map_fst_zip list.set_map diff_zero)
  then have "char2id [c] = None" by (simp add: char2id_def map_of_eq_None_iff)
  then show ?thesis by (simp add: encode_char_def)
qed

lemma encode_char_known_all:
  "list_all (\<lambda>i. encode_char ((digits @ ascii_lowercase) ! i) = int i) [0..<36]"
  by code_simp

lemma encode_char_known:
  "i < 36 \<Longrightarrow> encode_char ((digits @ ascii_lowercase) ! i) = int i"
  using encode_char_known_all by (simp add: list_all_iff)

text \<open>
  C8. \<open>word_label_table\<close> always returns a table and a mask of \<open>max_word_num + 1\<close> slots.
  Slot 0 is never written (all PAD, mask 0). For the word at index \<open>i\<close> of the list (cut
  to \<open>max_word_num\<close> words): if it is \<^verbatim>\<open>'###'\<close> or \<^verbatim>\<open>'???'\<close>, slot \<open>i + 1\<close> keeps its
  all-PAD content and mask 0; otherwise slot \<open>i + 1\<close> holds the ids of the lowercased
  characters in order, the end-of-sequence marker at position \<open>len(word)\<close> (at the last
  position when the word has more than \<open>max_word_len - 1\<close> characters) and PAD after it,
  and its mask is 1. The slots after the last word are untouched. A character of the
  vocabulary has its position in \<^verbatim>\<open>digits + ascii_lowercase\<close> as id, any other
  character has the id UNK. For the single word \<^verbatim>\<open>"hi"\<close>, slot 1 is
  \<open>[h_id, i_id, EOS, PAD, ...]\<close>, that is 17, 18, 36 and 29 times 37, and its mask is 1.
\<close>

theorem word_label_table_slots:
  "(\<exists>gt_words word_mask. word_label_table words = Inr (gt_words, word_mask)
     \<and> length gt_words = max_word_num + 1 \<and> length word_mask = max_word_num + 1
     \<and> gt_words ! 0 = replicate max_word_len PAD \<and> word_mask ! 0 = 0
     \<and> (\<forall>i < min (length words) max_word_num.
          if words ! i = ''###'' \<or> words ! i = ''???''
          then gt_words ! (i + 1) = replicate max_word_len PAD \<and> word_mask ! (i + 1) = 0
          else gt_words ! (i + 1) = slot_of_word (words ! i) \<and> word_mask ! (i + 1) = 1)
     \<and> (\<forall>k. min (length words) max_word_num < k \<and> k \<le> max_word_num \<longrightarrow>
          gt_words ! k = replicate max_word_len PAD \<and> word_mask ! k = 0))
   \<and> (\<forall>i<36. encode_char ((digits @ ascii_lowercase) ! i) = int i)
   \<and> (\<forall>c. c \<notin> set (digits @ ascii_lowercase) \<longrightarrow> encode_char c = UNK)
   \<and> EOS = 36 \<and> PAD = 37 \<and> UNK = 38
   \<and> (\<exists>gt_words word_mask. word_label_table [''hi''] = Inr (gt_words, word_mask)
        \<and> gt_words ! 1 = [encode_char CHR ''h'', encode_char CHR ''i'', EOS] @ replicate 29 PAD
        \<and> gt_words ! 1 = [17, 18, 36] @ replicate 29 37
        \<and> word_mask ! 1 = 1)"
proof (intro conjI)
  show "\<exists>gt_words word_mask. word_label_table words = Inr (gt_words, word_mask)
     \<and> length gt_words = max_word_num + 1 \<and> length word_mask = max_word_num + 1
     \<and> gt_words ! 0 = replicate max_word_len PAD \<and> word_mask ! 0 = 0
     \<and> (\<forall>i < min (length words) max_word_num.
          if words ! i = ''###'' \<or> words ! i = ''???''
          then gt_words ! (i + 1) = replicate max_word_len PAD \<and> word_mask ! (i + 1) = 0
          else gt_words ! (i + 1) = slot_of_word (words ! i) \<and> word_mask ! (i + 1) = 1)
     \<and> (\<forall>k. min (length words) max_word_num < k \<and> k \<le> max_word_num \<longrightarrow>
          gt_words ! k = replicate max_word_len PAD \<and> word_mask ! k = 0)"
    by (rule word_label_table_spec)
  show "\<forall>i<36. encode_char ((digits @ ascii_lowercase) ! i) = int i"
    using encode_char_known by blast
  show "\<forall>c. c \<notin> set (digits @ ascii_lowercase) \<longrightarrow> encode_char c = UNK"
    using encode_char_unknown by blast
  show "EOS = 36" "PAD = 37" "UNK = 38" by (rule special_ids)+
  from word_label_table_spec [of "[''hi'']"] obtain g m where
    r: "word_label_table [''hi''] = Inr (g, m)"
    and s: "\<forall>i < min (length [''hi'']) max_word_num.
          if [''hi''] ! i = ''###'' \<or> [''hi''] ! i = ''???''
          then g ! (i + 1) = replicate max_word_len PAD \<and> m ! (i + 1) = 0
          else g ! (i + 1) = slot_of_word ([''hi''] ! i) \<and> m ! (i + 1) = 1"
    by blast
  have "0 < min (length [''hi'']) max_word_num" by (simp add: max_word_num_def)
  with s have "g ! 1 = slot_of_word ''hi'' \<and> m ! 1 = 1" by fastforce
  moreover have "slot_of_word ''hi''
      = [encode_char CHR ''h'', encode_char CHR ''i'', EOS] @ replicate 29 PAD"
    by code_simp
  moreover have "slot_of_word ''hi'' = [17, 18, 36] @ replicate 29 37"
    by code_simp
  ultimately show "\<exists>gt_words word_mask. word_label_table [''hi''] = Inr (gt_words, word_mask)
        \<and> gt_words ! 1 = [encode_char CHR ''h'', encode_char CHR ''i'', EOS] @ replicate 29 PAD
        \<and> gt_words ! 1 = [17, 18, 36] @ replicate 29 37
        \<and> word_mask ! 1 = 1"
    using r by auto
qed

theorem word_label_table_slots_witness:
  "\<exists>gt_words word_mask. word_label_table [''Hi'', ''###'', ''a-1''] = Inr (gt_words, word_mask)
     \<and> gt_words ! 1 = [17, 18, 36] @ replicate 29 37 \<and> word_mask ! 1 = 1
     \<and> gt_words ! 2 = replicate max_word_len PAD \<and> word_mask ! 2 = 0
     \<and> gt_words ! 3 = [10, 38, 1, 36] @ replicate 28 37 \<and> word_mask ! 3 = 1
     \<and> gt_words ! 4 = replicate max_word_len PAD \<and> word_mask ! 4 = 0"
proof -
  let ?ws = "[''Hi'', ''###'', ''a-1'']"
  from word_label_table_slots [of ?ws] obtain g m where
    r: "word_label_table ?ws = Inr (g, m)"
    and s: "\<forall>i < min (length ?ws) max_word_num.
          if ?ws ! i = ''###'' \<or> ?ws ! i = ''???''
          then g ! (i + 1) = replicate max_word_len PAD \<and> m ! (i + 1) = 0
          else g ! (i + 1) = slot_of_word (?ws ! i) \<and> m ! (i + 1) = 1"
    and u: "\<forall>k. min (length ?ws) max_word_num < k \<and> k \<le> max_word_num \<longrightarrow>
          g ! k = replicate max_word_len PAD \<and> m ! k = 0"
    by blast
  have n: "min (length ?ws) max_word_num = 3" by (simp add: max_word_num_def)
  have h: "slot_of_word ''Hi'' = [17, 18, 36] @ replicate 29 37" by code_simp
  have a: "slot_of_word ''a-1'' = [10, 38, 1, 36] @ replicate 28 37" by code_simp
  from s [rule_format, of 0] n h have s1: "g ! 1 = [17, 18, 36] @ replicate 29 37 \<and> m ! 1 = 1"
    by simp
  from s [rule_format, of 1] n have s2: "g ! 2 = replicate max_word_len PAD \<and> m ! 2 = 0"
    by (simp add: numeral_2_eq_2)
  from s [rule_format, of 2] n a have s3: "g ! 3 = [10, 38, 1, 36] @ replicate 28 37 \<and> m ! 3 = 1"
    by simp
  from u [rule_format, of 4] n have s4: "g ! 4 = replicate max_word_len PAD \<and> m ! 4 = 0"
    by (simp add: max_word_num_def)
  show ?thesis using r s1 s2 s3 s4 by blast
qed

subsection \<open>Polygon geometry\<close>








lemma shrink_loop_Inr:
  "shrink_loop area pco rate max_shr bound acc bboxes = Inr res \<Longrightarrow>
     length res = length acc + length bboxes
     \<and> take (length acc) res = acc
     \<and> (\<forall>i<length bboxes. \<exists>a. area (bboxes ! i) = Inr a
           \<and> (res ! (length acc + i) = bboxes ! i
              \<or> (\<exists>rings. pco (bboxes ! i) JT_ROUND ET_CLOSEDPOLYGON
                             (- shrink_offset a (perimeter (bboxes ! i)) rate max_shr)
                           = Inr rings
                    \<and> rings \<noteq> [] \<and> res ! (length acc + i) = rings ! 0)))"
proof (induction bboxes arbitrary: bound acc)
  case Nil
  then show ?case by simp
next
  case (Cons bbox bboxes)
  from Cons.prems obtain bound' b where
    one: "shrink_one area pco rate max_shr bound bbox = Inr (bound', b)"
    and run: "shrink_loop area pco rate max_shr bound' (acc @ [b]) bboxes = Inr res"
    by (auto split: sum.splits)
  note ih = Cons.IH [OF run]
  have len: "length res = length acc + length (bbox # bboxes)" using ih by simp
  have t: "take (Suc (length acc)) res = acc @ [b]" using ih by simp
  have pre: "take (length acc) res = acc"
  proof -
    have "take (length acc) res = take (length acc) (take (Suc (length acc)) res)"
      by (simp add: min_def)
    also have "\<dots> = acc" by (simp add: t)
    finally show ?thesis .
  qed
  have here: "res ! length acc = b"
  proof -
    have "res ! length acc = take (Suc (length acc)) res ! length acc" by simp
    then show ?thesis by (simp add: t)
  qed
  have b: "\<exists>a. area bbox = Inr a
     \<and> (b = bbox
        \<or> (\<exists>rings. pco bbox JT_ROUND ET_CLOSEDPOLYGON
                      (- shrink_offset a (perimeter bbox) rate max_shr) = Inr rings
              \<and> rings \<noteq> [] \<and> b = rings ! 0))"
    using one by (auto simp: shrink_one_def shrink_select_def Let_def split: sum.splits if_splits)
  have "\<exists>a. area ((bbox # bboxes) ! i) = Inr a
         \<and> (res ! (length acc + i) = (bbox # bboxes) ! i
           \<or> (\<exists>rings. pco ((bbox # bboxes) ! i) JT_ROUND ET_CLOSEDPOLYGON
                  (- shrink_offset a (perimeter ((bbox # bboxes) ! i)) rate max_shr) = Inr rings
                 \<and> rings \<noteq> [] \<and> res ! (length acc + i) = rings ! 0))"
    if "i < length (bbox # bboxes)" for i
  proof (cases i)
    case 0
    then show ?thesis using b here by simp
  next
    case (Suc j)
    then have "j < length bboxes" using that by simp
    with ih Suc show ?thesis by simp
  qed
  then show ?case using len pre by blast
qed


lemma shrink_loop_returns:
  "\<forall>b\<in>set bboxes. (\<exists>a. area b = Inr a)
     \<and> (\<forall>d. \<exists>rings. pco b JT_ROUND ET_CLOSEDPOLYGON d = Inr rings) \<Longrightarrow>
     \<exists>res. shrink_loop area pco rate max_shr bound acc bboxes = Inr res"
proof (induction bboxes arbitrary: bound acc)
  case Nil
  then show ?case by simp
next
  case (Cons bbox bboxes)
  from Cons.prems obtain a where a: "area bbox = Inr a" by auto
  from Cons.prems obtain rings where
    "pco bbox JT_ROUND ET_CLOSEDPOLYGON
       (- shrink_offset a (perimeter bbox) rate max_shr) = Inr rings"
    by (meson list.set_intros(1))
  then have "\<exists>b. shrink_one area pco rate max_shr bound bbox = Inr (True, b)"
    using a by (simp add: shrink_one_def shrink_select_def Let_def)
  then obtain b where "shrink_one area pco rate max_shr bound bbox = Inr (True, b)" ..
  moreover have "\<exists>res. shrink_loop area pco rate max_shr True (acc @ [b]) bboxes = Inr res"
    using Cons.IH Cons.prems by simp
  ultimately show ?case by simp
qed

text \<open>
  Whenever \<open>shrink\<close> returns, the list it returns pairs with the input: same length, and
  at each index the input polygon itself or the first ring of its offset. It returns
  whenever neither the area nor the offsetting library raises for a polygon.
\<close>

lemma shrink_preserves_length:
  assumes "shrink area pco bboxes rate max_shr = Inr res"
  shows "length res = length bboxes"
    and "\<And>i. i < length bboxes \<Longrightarrow> \<exists>a. area (bboxes ! i) = Inr a
           \<and> (res ! i = bboxes ! i
              \<or> (\<exists>rings. pco (bboxes ! i) JT_ROUND ET_CLOSEDPOLYGON
                     (- shrink_offset a (perimeter (bboxes ! i)) (rate * rate) max_shr)
                   = Inr rings
                    \<and> rings \<noteq> [] \<and> res ! i = rings ! 0))"
  using shrink_loop_Inr [OF assms [unfolded shrink_def]] by simp_all

lemma shrink_returns:
  "\<forall>b\<in>set bboxes. (\<exists>a. area b = Inr a)
     \<and> (\<forall>d. \<exists>rings. pco b JT_ROUND ET_CLOSEDPOLYGON d = Inr rings) \<Longrightarrow>
     \<exists>res. shrink area pco bboxes rate max_shr = Inr res"
  unfolding shrink_def by (rule shrink_loop_returns)

text \<open>
  An empty offsetting result, or a first ring of 2 or fewer vertices, falls back to the
  input polygon; so does an exception once \<^verbatim>\<open>shrinked_bbox\<close> holds a value.
\<close>

lemma shrink_select_fallback:
  "shrink_select bound bbox (Inr []) = Inr (True, bbox)"
  "length ring \<le> 2 \<Longrightarrow> shrink_select bound bbox (Inr (ring # rings)) = Inr (True, bbox)"
  "2 < length ring \<Longrightarrow> shrink_select bound bbox (Inr (ring # rings)) = Inr (True, ring)"
  "shrink_select True bbox (Inl e) = Inr (True, bbox)"
  "shrink_select False bbox (Inl e) = Inl UnboundLocalError"
  by (simp_all add: shrink_select_def)





text \<open>
  C3. The failure policy does not hold for an exception raised before any polygon has been
  offset: the handler reads the variable \<^verbatim>\<open>shrinked_bbox\<close>, which holds no value yet,
  and UnboundLocalError leaves \<open>shrink\<close>. Here the offsetting of the only polygon raises.
\<close>

theorem shrink_first_exception_escapes:
  "shrink_default (\<lambda>_. Inr 16) (\<lambda>b j e d. Inl ClipperException)
     [[(0, 0), (4, 0), (4, 4), (0, 4)]] (7 / 10) = Inl UnboundLocalError"
  by (simp add: shrink_default_def shrink_def shrink_one_def shrink_select_def)

text \<open>
  C9. With two polygons of which the first cannot be offset, \<open>shrink\<close> returns no list at
  all, so no list of length 2; with the same polygons in the other order the exception is
  caught and the list has length 2.
\<close>

theorem shrink_returns_no_list:
  "shrink_default (\<lambda>_. Inr 16)
     (\<lambda>b j e d. if b = [(0, 0), (4, 0), (4, 4), (0, 4)] then Inl ClipperException else Inr [])
     [[(0, 0), (4, 0), (4, 4), (0, 4)], [(10, 10), (14, 10), (14, 14), (10, 14)]] (7 / 10)
     = Inl UnboundLocalError
   \<and> shrink_default (\<lambda>_. Inr 16)
     (\<lambda>b j e d. if b = [(0, 0), (4, 0), (4, 4), (0, 4)] then Inl ClipperException else Inr [])
     [[(10, 10), (14, 10), (14, 14), (10, 14)], [(0, 0), (4, 0), (4, 4), (0, 4)]] (7 / 10)
     = Inr [[(10, 10), (14, 10), (14, 14), (10, 14)], [(0, 0), (4, 0), (4, 4), (0, 4)]]"
  by (simp add: shrink_default_def shrink_def shrink_one_def shrink_select_def)

subsection \<open>Distance maps\<close>

lemma has_shape_nth: "has_shape h w img \<Longrightarrow> r < h \<Longrightarrow> length (img ! r) = w"
  by (simp add: has_shape_def)

lemma overwrite_positive_shape:
  assumes "has_shape h w buf" and "has_shape h w t"
  shows "has_shape h w (overwrite_positive buf t)"
proof -
  have "length row = w" if "row \<in> set (overwrite_positive buf t)" for row
  proof -
    from that obtain a b where "(a, b) \<in> set (zip buf t)"
      and row: "row = map2 (\<lambda>g t. if t > 0 then t else g) a b"
      by (auto simp: overwrite_positive_def)
    then have "a \<in> set buf" "b \<in> set t" by (auto dest: set_zip_leftD set_zip_rightD)
    then show ?thesis using assms row by (simp add: has_shape_def)
  qed
  moreover have "length (overwrite_positive buf t) = h"
    using assms by (simp add: overwrite_positive_def has_shape_def)
  ultimately show ?thesis by (simp add: has_shape_def)
qed

lemma overwrite_positive_nth:
  assumes "has_shape h w buf" and "has_shape h w t" and "r < h" and "c < w"
  shows "overwrite_positive buf t ! r ! c = (if t ! r ! c > 0 then t ! r ! c else buf ! r ! c)"
proof -
  have l: "length buf = h" "length t = h" "length (buf ! r) = w" "length (t ! r) = w"
    using assms by (simp_all add: has_shape_def)
  then have "overwrite_positive buf t ! r = map2 (\<lambda>g t. if t > 0 then t else g) (buf ! r) (t ! r)"
    using assms(3) by (simp add: overwrite_positive_def)
  then show ?thesis using l assms(4) by simp
qed

lemma distance_field_nonneg:
  assumes "distance_field h w t" and "r < h" and "c < w"
  shows "0 \<le> t ! r ! c"
proof -
  have "t ! r \<in> set t" using assms(1,2) by (simp add: distance_field_def has_shape_def)
  moreover from this have "t ! r ! c \<in> set (t ! r)"
    using assms(1,3) by (simp add: distance_field_def has_shape_def)
  ultimately show ?thesis using assms(1) by (simp add: distance_field_def)
qed

lemma last_nonzero_Cons:
  "last_nonzero init (v # vs) = last_nonzero (if v \<noteq> 0 then v else init) vs"
  by (simp add: last_nonzero_def split: list.splits)

lemma distmap_loop_shape:
  "has_shape h w buf \<Longrightarrow> \<forall>b\<in>set bboxes. distance_field h w (dt b) \<Longrightarrow>
     has_shape h w (distmap_loop dt bboxes buf)"
  by (induction bboxes arbitrary: buf) (simp_all add: overwrite_positive_shape distance_field_def)

lemma distmap_loop_nth:
  "has_shape h w buf \<Longrightarrow> \<forall>b\<in>set bboxes. distance_field h w (dt b) \<Longrightarrow> r < h \<Longrightarrow> c < w \<Longrightarrow>
     distmap_loop dt bboxes buf ! r ! c
       = last_nonzero (buf ! r ! c) (map (\<lambda>b. dt b ! r ! c) bboxes)"
proof (induction bboxes arbitrary: buf)
  case Nil
  then show ?case by (simp add: last_nonzero_def)
next
  case (Cons b bs)
  have f: "distance_field h w (dt b)" using Cons.prems(2) by simp
  then have sh: "has_shape h w (dt b)" by (simp add: distance_field_def)
  have "has_shape h w (overwrite_positive buf (dt b))"
    using Cons.prems(1) sh by (rule overwrite_positive_shape)
  from Cons.IH [OF this] Cons.prems
  have "distmap_loop dt bs (overwrite_positive buf (dt b)) ! r ! c
      = last_nonzero (overwrite_positive buf (dt b) ! r ! c) (map (\<lambda>b. dt b ! r ! c) bs)"
    by simp
  moreover have "overwrite_positive buf (dt b) ! r ! c
      = (if dt b ! r ! c \<noteq> 0 then dt b ! r ! c else buf ! r ! c)"
    using overwrite_positive_nth [OF Cons.prems(1) sh Cons.prems(3,4)]
      distance_field_nonneg [OF f Cons.prems(3,4)] by auto
  ultimately show ?case by (simp add: last_nonzero_Cons)
qed

lemma zeros_shape: "has_shape h w (replicate h (replicate w 0))"
  by (simp add: has_shape_def)

text \<open>
  C5. Let every per-polygon distance field be a raster of the canvas with values that are
  not negative. Merging one more field into the buffer overwrites the buffer exactly at
  the pixels where that field is nonzero and leaves the other pixels unchanged. Hence in
  the raw-polygon layer and in the shrunk-polygon (kernel) layer every pixel holds the
  last nonzero value among the polygons' fields at that pixel, in the order of the
  polygons, and 0 when there is none: neither the maximum nor the sum.
\<close>

theorem distmap_last_nonzero_wins:
  "(has_shape h w buf \<and> distance_field h w t \<and> r < h \<and> c < w \<longrightarrow>
      overwrite_positive buf t ! r ! c = (if t ! r ! c \<noteq> 0 then t ! r ! c else buf ! r ! c))
   \<and> ((\<forall>b\<in>set bboxes. distance_field h w (dt b)) \<and> r < h \<and> c < w \<longrightarrow>
      raw_distmap dt h w bboxes ! r ! c = last_nonzero 0 (map (\<lambda>b. dt b ! r ! c) bboxes))
   \<and> ((\<forall>b\<in>set kernel_bboxes. distance_field h w (dt b)) \<and> r < h \<and> c < w
        \<and> length kernel_bboxes = length bboxes \<longrightarrow>
      (\<exists>layer. kernel_distmap dt h w bboxes kernel_bboxes = Inr layer
         \<and> layer ! r ! c = last_nonzero 0 (map (\<lambda>b. dt b ! r ! c) kernel_bboxes)))"
proof (intro conjI impI)
  assume a: "has_shape h w buf \<and> distance_field h w t \<and> r < h \<and> c < w"
  then have "has_shape h w t" by (simp add: distance_field_def)
  with a overwrite_positive_nth [of h w buf t r c] distance_field_nonneg [of h w t r c]
  show "overwrite_positive buf t ! r ! c = (if t ! r ! c \<noteq> 0 then t ! r ! c else buf ! r ! c)"
    by auto
next
  assume a: "(\<forall>b\<in>set bboxes. distance_field h w (dt b)) \<and> r < h \<and> c < w"
  then have "distmap_loop dt bboxes (replicate h (replicate w 0)) ! r ! c
      = last_nonzero (replicate h (replicate w 0) ! r ! c) (map (\<lambda>b. dt b ! r ! c) bboxes)"
    using distmap_loop_nth [OF zeros_shape, of bboxes h w dt r c] by blast
  then show "raw_distmap dt h w bboxes ! r ! c = last_nonzero 0 (map (\<lambda>b. dt b ! r ! c) bboxes)"
    using a by (simp add: raw_distmap_def)
next
  assume a: "(\<forall>b\<in>set kernel_bboxes. distance_field h w (dt b)) \<and> r < h \<and> c < w
        \<and> length kernel_bboxes = length bboxes"
  then have "distmap_loop dt kernel_bboxes (replicate h (replicate w 0)) ! r ! c
      = last_nonzero (replicate h (replicate w 0) ! r ! c) (map (\<lambda>b. dt b ! r ! c) kernel_bboxes)"
    using distmap_loop_nth [OF zeros_shape, of kernel_bboxes h w dt r c] by blast
  then show "\<exists>layer. kernel_distmap dt h w bboxes kernel_bboxes = Inr layer
         \<and> layer ! r ! c = last_nonzero 0 (map (\<lambda>b. dt b ! r ! c) kernel_bboxes)"
    using a by (simp add: kernel_distmap_def)
qed

theorem distmap_last_nonzero_wins_witness:
  "distance_field 1 2 [[3, 5]] \<and> distance_field 1 2 [[1, 0]]
   \<and> overwrite_positive [[3, 5]] [[1, 0]] = [[1, 5]]
   \<and> raw_distmap (\<lambda>b. if b = [(0, 0), (4, 0), (4, 4), (0, 4)] then [[3, 5]] else [[1, 0]]) 1 2
        [[(0, 0), (4, 0), (4, 4), (0, 4)], [(2, 2), (6, 2), (6, 6), (2, 6)]] ! 0 ! 0
      = last_nonzero 0 [3, 1]
   \<and> last_nonzero 0 [3, 1] = 1 \<and> max 3 1 \<noteq> (1::real) \<and> 3 + 1 \<noteq> (1::real)
   \<and> raw_distmap (\<lambda>b. if b = [(0, 0), (4, 0), (4, 4), (0, 4)] then [[3, 5]] else [[1, 0]]) 1 2
        [[(0, 0), (4, 0), (4, 4), (0, 4)], [(2, 2), (6, 2), (6, 6), (2, 6)]]
      = [[1, 5]]
   \<and> kernel_distmap (\<lambda>b. if b = [(0, 0), (4, 0), (4, 4), (0, 4)] then [[3, 5]] else [[1, 0]]) 1 2
        [[(0, 0), (4, 0), (4, 4), (0, 4)], [(2, 2), (6, 2), (6, 6), (2, 6)]]
        [[(0, 0), (4, 0), (4, 4), (0, 4)], [(2, 2), (6, 2), (6, 6), (2, 6)]]
      = Inr [[1, 5]]"
proof -
  let ?p = "[(0, 0), (4, 0), (4, 4), (0, 4)] :: polygon"
  let ?q = "[(2, 2), (6, 2), (6, 6), (2, 6)] :: polygon"
  let ?dt = "\<lambda>b. if b = ?p then [[3, 5]] else [[1, 0 :: real]]"
  have f: "distance_field 1 2 [[3, 5]]" "distance_field 1 2 [[1, 0]]"
    by (simp_all add: distance_field_def has_shape_def)
  then have all: "\<forall>b\<in>set [?p, ?q]. distance_field 1 2 (?dt b)" by simp
  have o: "overwrite_positive [[3, 5]] [[1, 0]] = [[1, 5]]"
    by (simp add: overwrite_positive_def)
  have pos: "(0::nat) < 1" "(0::nat) < 2" by simp_all
  from distmap_last_nonzero_wins [of 1 2 "[[3, 5]]" "[[1, 0]]" 0 0 "[?p, ?q]" ?dt "[?p, ?q]"]
    all pos
  have "raw_distmap ?dt 1 2 [?p, ?q] ! 0 ! 0 = last_nonzero 0 (map (\<lambda>b. ?dt b ! 0 ! 0) [?p, ?q])"
    by blast
  then have r: "raw_distmap ?dt 1 2 [?p, ?q] ! 0 ! 0 = last_nonzero 0 [3, 1]" by simp
  have l: "last_nonzero 0 [3, 1] = 1" by (simp add: last_nonzero_def)
  have w: "raw_distmap ?dt 1 2 [?p, ?q] = [[1, 5]]"
    by (simp add: raw_distmap_def overwrite_positive_def numeral_2_eq_2)
  have k: "kernel_distmap ?dt 1 2 [?p, ?q] [?p, ?q] = Inr [[1, 5]]"
    by (simp add: kernel_distmap_def overwrite_positive_def numeral_2_eq_2)
  show ?thesis using f o r l w k by simp
qed

subsection \<open>Random crop with padding\<close>

lemma width_of_shape: "has_shape h w rows \<Longrightarrow> 0 < h \<Longrightarrow> width_of rows = w"
  by (cases rows) (simp_all add: has_shape_def width_of_def)

lemma shape2_raster_shape: "raster_shape h w x \<Longrightarrow> 0 < h \<Longrightarrow> shape2 x = (h, w)"
  by (cases x) (simp_all add: width_of_shape, simp_all add: has_shape_def)

lemma slice2_shape:
  assumes "has_shape h w rows" and "nat i + t_h \<le> h" and "nat j + t_w \<le> w"
  shows "has_shape t_h t_w (slice2 rows i j t_h t_w)"
proof -
  have "length (slice2 rows i j t_h t_w) = t_h"
    using assms(1,2) by (simp add: slice2_def has_shape_def)
  moreover have "length row = t_w" if "row \<in> set (slice2 rows i j t_h t_w)" for row
  proof -
    from that obtain src where "src \<in> set rows" and "row = take t_w (drop (nat j) src)"
      by (auto simp: slice2_def dest!: in_set_takeD in_set_dropD)
    then show ?thesis using assms(1,3) by (simp add: has_shape_def)
  qed
  ultimately show ?thesis by (simp add: has_shape_def)
qed

lemma slice2_nth:
  assumes "has_shape h w rows" and "nat i + t_h \<le> h" and "nat j + t_w \<le> w"
    and "r < t_h" and "c < t_w"
  shows "slice2 rows i j t_h t_w ! r ! c = rows ! (nat i + r) ! (nat j + c)"
proof -
  have "length rows = h" using assms(1) by (simp add: has_shape_def)
  then have "slice2 rows i j t_h t_w ! r = take t_w (drop (nat j) (rows ! (nat i + r)))"
    using assms(2,4) by (simp add: slice2_def)
  moreover have "length (rows ! (nat i + r)) = w"
    using assms(1,2,4) by (simp add: has_shape_def)
  ultimately show ?thesis using assms(3,5) by simp
qed

lemma copyMakeBorder_shape:
  assumes "has_shape a b img" and "0 < a"
  shows "has_shape (a + bottom) (b + right) (copyMakeBorder img bottom right v)"
  using assms width_of_shape [OF assms]
  by (auto simp: copyMakeBorder_def has_shape_def)

lemma copyMakeBorder_nth:
  assumes "has_shape a b img" and "0 < a" and "r < a + bottom" and "c < b + right"
  shows "copyMakeBorder img bottom right v ! r ! c = (if r < a \<and> c < b then img ! r ! c else v)"
proof (cases "r < a")
  case True
  then have "copyMakeBorder img bottom right v ! r = img ! r @ replicate right v"
    using assms(1) by (simp add: copyMakeBorder_def has_shape_def nth_append)
  moreover have "length (img ! r) = b" using assms(1) True by (simp add: has_shape_def)
  ultimately show ?thesis using True assms(4) by (simp add: nth_append)
next
  case False
  then have "copyMakeBorder img bottom right v ! r = replicate (b + right) v"
    using assms(1,2,3) width_of_shape [OF assms(1,2)]
    by (simp add: copyMakeBorder_def has_shape_def nth_append)
  then show ?thesis using False assms(4) by simp
qed

lemma channels_Color_nth:
  assumes "has_shape h w rows" and "r < h" and "c < w"
    and "\<forall>row\<in>set rows. \<forall>p\<in>set row. length p = k"
  shows "channels (Color rows) = k"
proof -
  have "rows ! r \<in> set rows" using assms(1,2) by (simp add: has_shape_def)
  moreover have "rows ! r ! c \<in> set (rows ! r)" using assms(1,2,3) by (simp add: has_shape_def)
  ultimately have "rows ! r ! c \<in> set (concat rows)" by auto
  then obtain p ps where "concat rows = p # ps" by (cases "concat rows") auto
  moreover from this have "p \<in> set (concat rows)" by simp
  then have "length p = k" using assms(4) by auto
  ultimately show ?thesis by simp
qed

lemma crop_pad_shape:
  assumes "raster_shape h w x" and "nat i + t_h \<le> h" and "nat j + t_w \<le> w"
    and "0 < t_h" and "t_h \<le> p_h" and "t_w \<le> p_w"
  shows "raster_shape p_h p_w (crop_pad i j t_h t_w p_h p_w x)"
proof (cases x)
  case (Gray rows)
  then have "has_shape t_h t_w (slice2 rows i j t_h t_w)"
    using assms(1,2,3) slice2_shape by auto
  from copyMakeBorder_shape [OF this assms(4), of "p_h - t_h" "p_w - t_w" 0]
  show ?thesis using Gray assms(5,6) by simp
next
  case (Color rows)
  then have "has_shape t_h t_w (slice2 rows i j t_h t_w)"
    using assms(1,2,3) slice2_shape by auto
  from copyMakeBorder_shape [OF this assms(4), of "p_h - t_h" "p_w - t_w"
      "replicate (channels (Color rows)) 0"]
  show ?thesis using Color assms(5,6) by (simp add: Let_def)
qed

lemma crop_pad_pixel:
  assumes "raster_shape h w x" and "nat i + t_h \<le> h" and "nat j + t_w \<le> w"
    and "0 < t_h" and "t_h \<le> p_h" and "t_w \<le> p_w" and "r < p_h" and "c < p_w"
  shows "pixel_at (crop_pad i j t_h t_w p_h p_w x) r c
           = (if r < t_h \<and> c < t_w then pixel_at x (nat i + r) (nat j + c)
              else replicate (channels x) 0)"
proof (cases x)
  case (Gray rows)
  then have sh: "has_shape h w rows" using assms(1) by simp
  have s: "has_shape t_h t_w (slice2 rows i j t_h t_w)"
    using sh assms(2,3) by (rule slice2_shape)
  have "r < t_h + (p_h - t_h)" "c < t_w + (p_w - t_w)" using assms by simp_all
  from copyMakeBorder_nth [OF s assms(4) this, of 0]
  show ?thesis using Gray slice2_nth [OF sh assms(2,3)] by (simp add: Let_def)
next
  case (Color rows)
  then have sh: "has_shape h w rows" using assms(1) by simp
  have s: "has_shape t_h t_w (slice2 rows i j t_h t_w)"
    using sh assms(2,3) by (rule slice2_shape)
  have "r < t_h + (p_h - t_h)" "c < t_w + (p_w - t_w)" using assms by simp_all
  from copyMakeBorder_nth [OF s assms(4) this, of "replicate (channels (Color rows)) 0"]
  show ?thesis using Color slice2_nth [OF sh assms(2,3)] by (simp add: Let_def)
qed

lemma randint_range:
  assumes "a \<le> b"
  shows "a \<le> randint a b r \<and> randint a b r \<le> b"
proof -
  have "0 < nat (b - a + 1)" using assms by simp
  then have "r mod nat (b - a + 1) < nat (b - a + 1)" by (rule mod_less_divisor)
  then have "int (r mod nat (b - a + 1)) < int (nat (b - a + 1))" by (simp only: of_nat_less_iff)
  then have "int (r mod nat (b - a + 1)) < b - a + 1" using assms by simp
  then show ?thesis by (simp add: randint_def)
qed

lemma randint_covers: "a \<le> b \<Longrightarrow> a \<le> k \<Longrightarrow> k \<le> b \<Longrightarrow> randint a b (nat (k - a)) = k"
  by (simp add: randint_def)

lemma uniform_origin_range:
  assumes "t_h \<le> h" and "t_w \<le> w"
  shows "0 \<le> fst (uniform_origin h w t_h t_w r1 r2)
      \<and> fst (uniform_origin h w t_h t_w r1 r2) \<le> int h - int t_h
      \<and> 0 \<le> snd (uniform_origin h w t_h t_w r1 r2)
      \<and> snd (uniform_origin h w t_h t_w r1 r2) \<le> int w - int t_w"
  using assms randint_range [of 0 "int h - int t_h" r1] randint_range [of 0 "int w - int t_w" r2]
  by (simp add: uniform_origin_def Let_def)

lemma uniform_origin_covers:
  assumes "i0 \<le> h - t_h" and "j0 \<le> w - t_w"
  shows "uniform_origin h w t_h t_w i0 j0 = (int i0, int j0)"
  using assms by (auto simp: uniform_origin_def Let_def randint_def)

lemma text_origin_range:
  assumes "t_h \<le> h" and "t_w \<le> w" and "text_origin (Gray rows) h w t_h t_w r1 r2 = Inr (i, j)"
  shows "0 \<le> i \<and> i \<le> int h - int t_h \<and> 0 \<le> j \<and> j \<le> int w - int t_w"
proof -
  define coords where "coords = positive_coords rows"
  define tl0 where "tl0 = max 0 (int (Min (set (map fst coords))) - int t_h)"
  define tl1 where "tl1 = max 0 (int (Min (set (map snd coords))) - int t_w)"
  define br0 where "br0 = min (max 0 (int (Max (set (map fst coords))) - int t_h)) (int h - int t_h)"
  define br1 where "br1 = min (max 0 (int (Max (set (map snd coords))) - int t_w)) (int w - int t_w)"
  have "text_origin (Gray rows) h w t_h t_w r1 r2
          = Inr (if tl0 < br0 then randint tl0 br0 r1 else 0,
                 if tl1 < br1 then randint tl1 br1 r2 else 0)"
    unfolding text_origin_def Let_def coords_def tl0_def tl1_def br0_def br1_def by simp
  with assms(3) have i: "i = (if tl0 < br0 then randint tl0 br0 r1 else 0)"
    and j: "j = (if tl1 < br1 then randint tl1 br1 r2 else 0)"
    by simp_all
  have "0 \<le> tl0" "0 \<le> tl1" "br0 \<le> int h - int t_h" "br1 \<le> int w - int t_w"
    by (simp_all add: tl0_def tl1_def br0_def br1_def)
  moreover have "tl0 < br0 \<Longrightarrow> tl0 \<le> randint tl0 br0 r1 \<and> randint tl0 br0 r1 \<le> br0"
    using randint_range [of tl0 br0 r1] by simp
  moreover have "tl1 < br1 \<Longrightarrow> tl1 \<le> randint tl1 br1 r2 \<and> randint tl1 br1 r2 \<le> br1"
    using randint_range [of tl1 br1 r2] by simp
  ultimately show ?thesis using i j assms(1,2) by auto
qed

lemma max_of_positive:
  "max_of vs = Inr m \<Longrightarrow> (0 < m \<longleftrightarrow> (\<exists>v\<in>set vs. 0 < v))"
proof -
  assume a: "max_of vs = Inr m"
  then obtain v ws where vs: "vs = v # ws" and m: "m = fold max ws v"
    by (cases vs) (auto simp: max_of_def)
  have "m = Max (set vs)" unfolding vs m by (rule Max.set_eq_fold [symmetric])
  moreover have "finite (set vs)" "set vs \<noteq> {}" using vs by simp_all
  ultimately show ?thesis using Max_gr_iff [of "set vs" 0] by simp
qed

lemma max_of_returns: "vs \<noteq> [] \<Longrightarrow> \<exists>m. max_of vs = Inr m"
  by (cases vs) (simp_all add: max_of_def)

lemma concat_nonempty: "has_shape h w rows \<Longrightarrow> 0 < h \<Longrightarrow> 0 < w \<Longrightarrow> concat rows \<noteq> []"
  by (cases rows) (auto simp: has_shape_def)

lemma crop_origin_gray:
  assumes "1 < length imgs" and "imgs ! 1 = Gray rows" and "concat rows \<noteq> []"
  shows "crop_origin imgs h w t_h t_w u r1 r2 =
           (if 3 / 8 < u \<and> has_foreground (Gray rows)
            then text_origin (Gray rows) h w t_h t_w r1 r2
            else Inr (uniform_origin h w t_h t_w r1 r2))"
proof -
  from max_of_returns [OF assms(3)] obtain m where m: "max_of (concat rows) = Inr m" by blast
  from max_of_positive [OF m] have "0 < m \<longleftrightarrow> has_foreground (Gray rows)" by simp
  then show ?thesis using assms(1,2) m by (simp add: crop_origin_def)
qed

lemma crop_origin_valid:
  assumes "1 < length imgs" and "imgs ! 1 = Gray rows" and "has_shape h w rows"
    and "0 < h" and "0 < w" and "t_h \<le> h" and "t_w \<le> w"
  shows "\<exists>i j. crop_origin imgs h w t_h t_w u r1 r2 = Inr (i, j)
           \<and> 0 \<le> i \<and> i \<le> int h - int t_h \<and> 0 \<le> j \<and> j \<le> int w - int t_w"
proof (cases "3 / 8 < u \<and> has_foreground (Gray rows)")
  case True
  note g = crop_origin_gray [OF assms(1,2) concat_nonempty [OF assms(3,4,5)], of h w t_h t_w u r1 r2]
  obtain i j where ij: "text_origin (Gray rows) h w t_h t_w r1 r2 = Inr (i, j)"
    by (simp add: text_origin_def Let_def)
  have "crop_origin imgs h w t_h t_w u r1 r2 = text_origin (Gray rows) h w t_h t_w r1 r2"
    unfolding g using True by (rule if_P)
  then have "crop_origin imgs h w t_h t_w u r1 r2 = Inr (i, j)" by (simp only: ij)
  with text_origin_range [OF assms(6,7) ij] show ?thesis by blast
next
  case False
  note g = crop_origin_gray [OF assms(1,2) concat_nonempty [OF assms(3,4,5)], of h w t_h t_w u r1 r2]
  obtain i j where ij: "uniform_origin h w t_h t_w r1 r2 = (i, j)"
    by (cases "uniform_origin h w t_h t_w r1 r2")
  have "crop_origin imgs h w t_h t_w u r1 r2 = Inr (uniform_origin h w t_h t_w r1 r2)"
    unfolding g using False by (rule if_not_P)
  then have "crop_origin imgs h w t_h t_w u r1 r2 = Inr (i, j)" by (simp only: ij)
  moreover from uniform_origin_range [OF assms(6,7), of r1 r2] ij
  have "0 \<le> i \<and> i \<le> int h - int t_h \<and> 0 \<le> j \<and> j \<le> int w - int t_w" by simp
  ultimately show ?thesis by blast
qed

lemma random_crop_padding_crops:
  assumes "imgs = img0 # rest" and "shape2 img0 = (h, w)" and "\<not> (w = t_w \<and> h = t_h)"
  shows "random_crop_padding imgs (t_w, t_h) u r1 r2
    = (case crop_origin imgs h w (min t_h h) (min t_w w) u r1 r2 of
         Inl e \<Rightarrow> Inl e
       | Inr (i, j) \<Rightarrow> Inr (map (crop_pad i j (min t_h h) (min t_w w) t_h t_w) imgs))"
proof -
  have "(if t_h < h then t_h else h) = min t_h h" "(if t_w < w then t_w else w) = min t_w w"
    by simp_all
  then show ?thesis
    unfolding random_crop_padding_def assms(1) using assms(2,3) by (auto simp add: Let_def)
qed

text \<open>
  C7, as the code has it. For every list of at least two rasters of \<open>h\<close> rows and \<open>w\<close>
  columns (\<open>h, w > 0\<close>) whose second raster has two dimensions, and every target size
  \<open>(t_w, t_h)\<close> with positive components, \<open>random_crop_padding\<close> returns as many rasters,
  each of \<open>t_h\<close> rows and \<open>t_w\<close> columns, whether the source is smaller or larger than
  the target: there is an origin \<open>(i, j)\<close> with \<open>i + min t_h h \<le> h\<close> and
  \<open>j + min t_w w \<le> w\<close> such that every returned raster holds the source pixels from the
  origin on in its top-left \<open>min t_h h\<close> by \<open>min t_w w\<close> block and zeros below and to the
  right of it.
\<close>

theorem random_crop_padding_size:
  "1 < length imgs \<and> (\<forall>x\<in>set imgs. raster_shape h w x) \<and> is_gray (imgs ! 1)
     \<and> 0 < h \<and> 0 < w \<and> 0 < t_h \<and> 0 < t_w \<longrightarrow>
   (\<exists>res i j. random_crop_padding imgs (t_w, t_h) u r1 r2 = Inr res
      \<and> length res = length imgs
      \<and> i + min t_h h \<le> h \<and> j + min t_w w \<le> w
      \<and> (\<forall>k<length imgs.
            raster_shape t_h t_w (res ! k)
            \<and> (\<forall>r<t_h. \<forall>c<t_w.
                  pixel_at (res ! k) r c =
                    (if r < min t_h h \<and> c < min t_w w then pixel_at (imgs ! k) (i + r) (j + c)
                     else replicate (channels (imgs ! k)) 0))))"
proof
  assume a: "1 < length imgs \<and> (\<forall>x\<in>set imgs. raster_shape h w x) \<and> is_gray (imgs ! 1)
     \<and> 0 < h \<and> 0 < w \<and> 0 < t_h \<and> 0 < t_w"
  then obtain img0 rest where imgs: "imgs = img0 # rest" by (cases imgs) auto
  have sh: "raster_shape h w (imgs ! k)" if "k < length imgs" for k using a that by simp
  have sh0: "shape2 img0 = (h, w)"
    using a imgs shape2_raster_shape [of h w img0] by simp
  from a obtain rows where g: "imgs ! 1 = Gray rows" by (cases "imgs ! 1") auto
  have "raster_shape h w (imgs ! 1)" using sh a by blast
  then have gs: "has_shape h w rows" unfolding g by simp
  show "\<exists>res i j. random_crop_padding imgs (t_w, t_h) u r1 r2 = Inr res
      \<and> length res = length imgs
      \<and> i + min t_h h \<le> h \<and> j + min t_w w \<le> w
      \<and> (\<forall>k<length imgs.
            raster_shape t_h t_w (res ! k)
            \<and> (\<forall>r<t_h. \<forall>c<t_w.
                  pixel_at (res ! k) r c =
                    (if r < min t_h h \<and> c < min t_w w then pixel_at (imgs ! k) (i + r) (j + c)
                     else replicate (channels (imgs ! k)) 0)))"
  proof (cases "w = t_w \<and> h = t_h")
    case True
    have "random_crop_padding imgs (t_w, t_h) u r1 r2 = Inr imgs"
      using True sh0 by (simp add: random_crop_padding_def imgs)
    moreover have "raster_shape t_h t_w (imgs ! k)" if "k < length imgs" for k
      using sh [OF that] True by simp
    ultimately have "random_crop_padding imgs (t_w, t_h) u r1 r2 = Inr imgs
      \<and> length imgs = length imgs
      \<and> 0 + min t_h h \<le> h \<and> 0 + min t_w w \<le> w
      \<and> (\<forall>k<length imgs.
            raster_shape t_h t_w (imgs ! k)
            \<and> (\<forall>r<t_h. \<forall>c<t_w.
                  pixel_at (imgs ! k) r c =
                    (if r < min t_h h \<and> c < min t_w w then pixel_at (imgs ! k) (0 + r) (0 + c)
                     else replicate (channels (imgs ! k)) 0)))"
      using True by simp
    then show ?thesis by blast
  next
    case False
    let ?th = "min t_h h" and ?tw = "min t_w w"
    have le: "?th \<le> h" "?tw \<le> w" "0 < ?th" "?th \<le> t_h" "?tw \<le> t_w" using a by simp_all
    have l1: "1 < length imgs" and hp: "0 < h" and wp: "0 < w" using a by simp_all
    from crop_origin_valid [OF l1 g gs hp wp le(1,2)]
    obtain i j where o: "crop_origin imgs h w ?th ?tw u r1 r2 = Inr (i, j)"
      and r: "0 \<le> i" "i \<le> int h - int ?th" "0 \<le> j" "j \<le> int w - int ?tw"
      by blast
    have b: "nat i + ?th \<le> h" "nat j + ?tw \<le> w" using r le(1,2) by linarith+
    have run: "random_crop_padding imgs (t_w, t_h) u r1 r2
                 = Inr (map (crop_pad i j ?th ?tw t_h t_w) imgs)"
      using random_crop_padding_crops [OF imgs sh0 False, of u r1 r2] o by simp
    have "raster_shape t_h t_w (map (crop_pad i j ?th ?tw t_h t_w) imgs ! k)
            \<and> (\<forall>r<t_h. \<forall>c<t_w.
                  pixel_at (map (crop_pad i j ?th ?tw t_h t_w) imgs ! k) r c =
                    (if r < ?th \<and> c < ?tw then pixel_at (imgs ! k) (nat i + r) (nat j + c)
                     else replicate (channels (imgs ! k)) 0))"
      if k: "k < length imgs" for k
      using crop_pad_shape [OF sh [OF k] b le(3,4,5)]
        crop_pad_pixel [OF sh [OF k] b le(3,4,5)] k
      by simp
    then have "random_crop_padding imgs (t_w, t_h) u r1 r2
                 = Inr (map (crop_pad i j ?th ?tw t_h t_w) imgs)
      \<and> length (map (crop_pad i j ?th ?tw t_h t_w) imgs) = length imgs
      \<and> nat i + ?th \<le> h \<and> nat j + ?tw \<le> w
      \<and> (\<forall>k<length imgs.
            raster_shape t_h t_w (map (crop_pad i j ?th ?tw t_h t_w) imgs ! k)
            \<and> (\<forall>r<t_h. \<forall>c<t_w.
                  pixel_at (map (crop_pad i j ?th ?tw t_h t_w) imgs ! k) r c =
                    (if r < ?th \<and> c < ?tw then pixel_at (imgs ! k) (nat i + r) (nat j + c)
                     else replicate (channels (imgs ! k)) 0)))"
      using run b by simp
    then show ?thesis by blast
  qed
qed

theorem random_crop_padding_size_witness:
  "random_crop_padding [Color [[[7, 1, 2], [8, 3, 4]]], Gray [[0, 5 :: nat]]] (3, 2) (1 / 2) 1 1
     = Inr [Color [[[7, 1, 2], [8, 3, 4], [0, 0, 0]], [[0, 0, 0], [0, 0, 0], [0, 0, 0]]],
            Gray [[0, 5, 0], [0, 0, 0]]]
   \<and> raster_shape 1 2 (Color [[[7, 1, 2], [8, 3, 4 :: nat]]]) \<and> raster_shape 1 2 (Gray [[0, 5 :: nat]])
   \<and> (\<exists>res. random_crop_padding [Color [[[7, 1, 2], [8, 3, 4]]], Gray [[0, 5 :: nat]]] (3, 2)
               (1 / 2) 1 1 = Inr res
          \<and> raster_shape 2 3 (res ! 0) \<and> raster_shape 2 3 (res ! 1))
   \<and> (\<exists>res. random_crop_padding [Color [[[7, 1, 2], [8, 3, 4]]], Gray [[0, 5 :: nat]]] (1, 1)
               (1 / 2) 1 1 = Inr res
          \<and> raster_shape 1 1 (res ! 0) \<and> raster_shape 1 1 (res ! 1))"
proof -
  let ?imgs = "[Color [[[7, 1, 2], [8, 3, 4]]], Gray [[0, 5 :: nat]]]"
  have e: "random_crop_padding ?imgs (3, 2) (1 / 2) 1 1
     = Inr [Color [[[7, 1, 2], [8, 3, 4], [0, 0, 0]], [[0, 0, 0], [0, 0, 0], [0, 0, 0]]],
            Gray [[0, 5, 0], [0, 0, 0]]]"
    by code_simp
  have s: "raster_shape 1 2 (Color [[[7, 1, 2], [8, 3, 4 :: nat]]])" "raster_shape 1 2 (Gray [[0, 5 :: nat]])"
    by (simp_all add: has_shape_def)
  then have h: "1 < length ?imgs \<and> (\<forall>x\<in>set ?imgs. raster_shape 1 2 x) \<and> is_gray (?imgs ! 1)"
    by simp
  from random_crop_padding_size [of ?imgs 1 2 2 3 "1 / 2" 1 1] h
  have big: "\<exists>res. random_crop_padding ?imgs (3, 2) (1 / 2) 1 1 = Inr res
          \<and> raster_shape 2 3 (res ! 0) \<and> raster_shape 2 3 (res ! 1)"
    by fastforce
  from random_crop_padding_size [of ?imgs 1 2 1 1 "1 / 2" 1 1] h
  have small: "\<exists>res. random_crop_padding ?imgs (1, 1) (1 / 2) 1 1 = Inr res
          \<and> raster_shape 1 1 (res ! 0) \<and> raster_shape 1 1 (res ! 1)"
    by fastforce
  show ?thesis using e s big small by blast
qed

text \<open>
  The claim as the specification words it, for every nonempty list, fails on a list of one
  raster: with a draw above 3/8 the test \<^verbatim>\<open>np.max(imgs[1])\<close> raises IndexError.
\<close>

theorem random_crop_padding_single_counterexample:
  "raster_shape 1 2 (Gray [[7, 8 :: nat]])
   \<and> random_crop_padding [Gray [[7, 8 :: nat]]] (1, 1) (1 / 2) 1 0 = Inl IndexError"
  by (simp add: has_shape_def random_crop_padding_def crop_origin_def width_of_def)

text \<open>
  The branch under \<^verbatim>\<open># make sure to crop the text region\<close> can return a crop without
  any text pixel: here the only pixel above 0 is in column 1 and the crop is column 0,
  whatever the random numbers.
\<close>

lemma text_origin_misses_text:
  "random_crop_padding [Color [[[7, 1, 2], [8, 3, 4]]], Gray [[0, 5 :: nat]]] (1, 1) (1 / 2) r1 r2
     = Inr [Color [[[7, 1, 2]]], Gray [[0]]]"
proof -
  let ?imgs = "[Color [[[7, 1, 2], [8, 3, 4]]], Gray [[0, 5 :: nat]]]"
  have pc: "positive_coords [[0, 5 :: nat]] = [(0, 1)]" by code_simp
  have t: "text_origin (Gray [[0, 5 :: nat]]) 1 2 1 1 r1 r2 = Inr (0, 0)"
    by (simp add: text_origin_def pc Let_def)
  have c: "crop_origin ?imgs 1 2 1 1 (1 / 2) r1 r2 = Inr (0, 0)"
    unfolding crop_origin_def using t by (simp add: max_of_def)
  have m: "map (crop_pad 0 0 1 1 1 1) ?imgs = [Color [[[7, 1, 2]]], Gray [[0]]]"
    by code_simp
  have sh: "shape2 (Color [[[7, 1, 2], [8, 3, 4 :: nat]]]) = (1, 2)" by (simp add: width_of_def)
  have ne: "\<not> ((2::nat) = 1 \<and> (1::nat) = 1)" by simp
  have mins: "min (1::nat) 1 = 1" "min (1::nat) 2 = 1" by simp_all
  show ?thesis
    unfolding random_crop_padding_crops [OF refl sh ne] mins c
    by (simp only: sum.case prod.case m)
qed

lemma uniform_origin_mod:
  assumes "t_h \<le> h" and "t_w \<le> w"
  shows "uniform_origin h w t_h t_w r1 r2
           = (int (r1 mod (h - t_h + 1)), int (r2 mod (w - t_w + 1)))"
proof -
  have "nat (int h - int t_h + 1) = h - t_h + 1" "nat (int w - int t_w + 1) = w - t_w + 1"
    using assms by linarith+
  moreover have "\<not> int h - int t_h > 0 \<Longrightarrow> h - t_h = 0" "\<not> int w - int t_w > 0 \<Longrightarrow> w - t_w = 0"
    by linarith+
  ultimately show ?thesis by (auto simp: uniform_origin_def Let_def randint_def)
qed

text \<open>
  C4, as the code has it. The crop origin is the one of the text-region branch exactly
  when the uniform draw exceeds 3/8 and the second raster of the list, \<^verbatim>\<open>imgs[1]\<close> (the
  instance map in \<open>prepare_train_data\<close>, not the training mask, which is
  \<^verbatim>\<open>imgs[2]\<close>), has a pixel above 0; nothing is said here of which pixels the crop of
  that branch contains. Otherwise the origin is chosen uniformly over the valid range: on
  each axis it is \<open>r mod (n + 1)\<close> for the raw random number \<open>r\<close> and the largest valid
  origin \<open>n\<close>, a value of the valid range, and every valid origin is reached.
\<close>

theorem crop_origin_branches:
  "(\<not> 3 / 8 < u \<longrightarrow>
      crop_origin imgs h w t_h t_w u r1 r2 = Inr (uniform_origin h w t_h t_w r1 r2))
   \<and> (1 < length imgs \<and> imgs ! 1 = Gray rows \<and> concat rows \<noteq> [] \<longrightarrow>
        crop_origin imgs h w t_h t_w u r1 r2 =
          (if 3 / 8 < u \<and> has_foreground (imgs ! 1)
           then text_origin (imgs ! 1) h w t_h t_w r1 r2
           else Inr (uniform_origin h w t_h t_w r1 r2)))
   \<and> (t_h \<le> h \<and> t_w \<le> w \<longrightarrow>
        uniform_origin h w t_h t_w r1 r2
          = (int (r1 mod (h - t_h + 1)), int (r2 mod (w - t_w + 1)))
        \<and> 0 \<le> fst (uniform_origin h w t_h t_w r1 r2)
        \<and> fst (uniform_origin h w t_h t_w r1 r2) \<le> int h - int t_h
        \<and> 0 \<le> snd (uniform_origin h w t_h t_w r1 r2)
        \<and> snd (uniform_origin h w t_h t_w r1 r2) \<le> int w - int t_w)
   \<and> (i0 \<le> h - t_h \<and> j0 \<le> w - t_w \<longrightarrow>
        uniform_origin h w t_h t_w i0 j0 = (int i0, int j0))"
proof (intro conjI impI)
  assume "\<not> 3 / 8 < u"
  then show "crop_origin imgs h w t_h t_w u r1 r2 = Inr (uniform_origin h w t_h t_w r1 r2)"
    by (simp add: crop_origin_def)
next
  assume a: "1 < length imgs \<and> imgs ! 1 = Gray rows \<and> concat rows \<noteq> []"
  then have l: "1 < length imgs" and g: "imgs ! 1 = Gray rows" and c: "concat rows \<noteq> []"
    by blast+
  show "crop_origin imgs h w t_h t_w u r1 r2 =
          (if 3 / 8 < u \<and> has_foreground (imgs ! 1)
           then text_origin (imgs ! 1) h w t_h t_w r1 r2
           else Inr (uniform_origin h w t_h t_w r1 r2))"
    unfolding g by (rule crop_origin_gray [OF l g c])
next
  assume a: "t_h \<le> h \<and> t_w \<le> w"
  then have le: "t_h \<le> h" "t_w \<le> w" by blast+
  show "uniform_origin h w t_h t_w r1 r2
          = (int (r1 mod (h - t_h + 1)), int (r2 mod (w - t_w + 1)))"
    using le by (rule uniform_origin_mod)
  from uniform_origin_range [OF le, of r1 r2]
  show "0 \<le> fst (uniform_origin h w t_h t_w r1 r2)"
    "fst (uniform_origin h w t_h t_w r1 r2) \<le> int h - int t_h"
    "0 \<le> snd (uniform_origin h w t_h t_w r1 r2)"
    "snd (uniform_origin h w t_h t_w r1 r2) \<le> int w - int t_w"
    by blast+
next
  assume "i0 \<le> h - t_h \<and> j0 \<le> w - t_w"
  then show "uniform_origin h w t_h t_w i0 j0 = (int i0, int j0)"
    using uniform_origin_covers by blast
qed

theorem crop_origin_branches_witness:
  "has_foreground (Gray [[0, 2, 0, 2, 0 :: nat]])
   \<and> crop_origin [Gray [[7, 8, 9, 6, 5]], Gray [[0, 2, 0, 2, 0 :: nat]], Gray [[1, 1, 1, 1, 1]]]
        1 5 1 1 (1 / 2) 0 1
      = text_origin (Gray [[0, 2, 0, 2, 0 :: nat]]) 1 5 1 1 0 1
   \<and> crop_origin [Gray [[7, 8, 9, 6, 5]], Gray [[0, 2, 0, 2, 0 :: nat]], Gray [[1, 1, 1, 1, 1]]]
        1 5 1 1 (1 / 4) 0 4
      = Inr (uniform_origin 1 5 1 1 0 4)
   \<and> uniform_origin 1 5 1 1 0 4 = (0, 4)
   \<and> uniform_origin 1 5 1 1 0 7 = (0, 2)"
proof -
  let ?inst = "[[0, 2, 0, 2, 0 :: nat]]"
  let ?imgs = "[Gray [[7, 8, 9, 6, 5]], Gray ?inst, Gray [[1, 1, 1, 1, 1]]]"
  have f: "has_foreground (Gray ?inst)" by simp
  have h: "1 < length ?imgs \<and> ?imgs ! 1 = Gray ?inst \<and> concat ?inst \<noteq> []" by simp
  from crop_origin_branches [of "1 / 2" ?imgs 1 5 1 1 0 1 ?inst 0 0] h
  have "crop_origin ?imgs 1 5 1 1 (1 / 2) 0 1 =
          (if 3 / 8 < (1 / 2 :: real) \<and> has_foreground (?imgs ! 1)
           then text_origin (?imgs ! 1) 1 5 1 1 0 1
           else Inr (uniform_origin 1 5 1 1 0 1))"
    by blast
  then have a: "crop_origin ?imgs 1 5 1 1 (1 / 2) 0 1 = text_origin (Gray ?inst) 1 5 1 1 0 1"
    by simp
  from crop_origin_branches [of "1 / 4" ?imgs 1 5 1 1 0 4 ?inst 0 0]
  have b: "crop_origin ?imgs 1 5 1 1 (1 / 4) 0 4 = Inr (uniform_origin 1 5 1 1 0 4)"
    by simp
  have le: "(1::nat) \<le> 1 \<and> (1::nat) \<le> 5" by simp
  from crop_origin_branches [of "1 / 4" ?imgs 1 5 1 1 0 4 ?inst 0 0] le
  have "uniform_origin 1 5 1 1 0 4 = (int (0 mod (1 - 1 + 1)), int (4 mod (5 - 1 + 1)))"
    by blast
  then have u: "uniform_origin 1 5 1 1 0 4 = (0, 4)" by simp
  from crop_origin_branches [of "1 / 4" ?imgs 1 5 1 1 0 7 ?inst 0 0] le
  have "uniform_origin 1 5 1 1 0 7 = (int (0 mod (1 - 1 + 1)), int (7 mod (5 - 1 + 1)))"
    by blast
  then have v: "uniform_origin 1 5 1 1 0 7 = (0, 2)" by simp
  show ?thesis using f a b u v by blast
qed

text \<open>
  The claim as the specification words it fails: with a draw above 3/8 and a training
  mask (\<^verbatim>\<open>imgs[2]\<close>) that has foreground pixels, but an instance map without any, the
  origin is the one of the uniform branch, \<open>(1, 0)\<close>, where the text-aware choice on the
  training mask is \<open>(0, 0)\<close>.
\<close>

theorem crop_origin_training_mask_counterexample:
  "(3 / 8 :: real) < 1 / 2
   \<and> has_foreground (Gray [[1], [1 :: nat]])
   \<and> \<not> has_foreground (Gray [[0], [0 :: nat]])
   \<and> crop_origin [Gray [[7], [8]], Gray [[0], [0]], Gray [[1], [1 :: nat]]] 2 1 1 1 (1 / 2) 1 0
        = Inr (uniform_origin 2 1 1 1 1 0)
   \<and> uniform_origin 2 1 1 1 1 0 = (1, 0)
   \<and> text_origin (Gray [[1], [1 :: nat]]) 2 1 1 1 1 0 = Inr (0, 0)
   \<and> random_crop_padding [Gray [[7], [8]], Gray [[0], [0]], Gray [[1], [1 :: nat]]] (1, 1)
        (1 / 2) 1 0
        = Inr [Gray [[8]], Gray [[0]], Gray [[1]]]"
proof -
  have u: "uniform_origin 2 1 1 1 1 0 = (1, 0)" by code_simp
  have t: "text_origin (Gray [[1], [1 :: nat]]) 2 1 1 1 1 0 = Inr (0, 0)" by code_simp
  have c: "crop_origin [Gray [[7], [8]], Gray [[0], [0]], Gray [[1], [1 :: nat]]] 2 1 1 1 (1 / 2) 1 0
        = Inr (uniform_origin 2 1 1 1 1 0)"
    by (simp add: crop_origin_def max_of_def)
  have m: "map (crop_pad 1 0 1 1 1 1) [Gray [[7], [8]], Gray [[0], [0]], Gray [[1], [1 :: nat]]]
             = [Gray [[8]], Gray [[0]], Gray [[1]]]"
    by code_simp
  have sh: "shape2 (Gray [[7], [8 :: nat]]) = (2, 1)" by (simp add: width_of_def)
  have ne: "\<not> ((1::nat) = 1 \<and> (2::nat) = 1)" by simp
  have mins: "min (1::nat) 1 = 1" "min (1::nat) 2 = 1" by simp_all
  have r: "random_crop_padding [Gray [[7], [8]], Gray [[0], [0]], Gray [[1], [1 :: nat]]] (1, 1)
        (1 / 2) 1 0 = Inr [Gray [[8]], Gray [[0]], Gray [[1]]]"
    unfolding random_crop_padding_crops [OF refl sh ne] mins c u
    by (simp only: sum.case prod.case m)
  show ?thesis using u t c r by simp
qed

end
